theory Spec2Isabelle
  imports Main "HOL-Library.Char_ord" "HOL-Library.List_Lexorder"
begin

section \<open>Strings and characters\<close>

text \<open>
  The program is \<^verbatim>\<open>DataWarehousing/main.py\<close>. A Python \<^verbatim>\<open>str\<close> is modelled as a
  \<^typ>\<open>string\<close>, each \<^typ>\<open>char\<close> standing for the code point of the same number, so the
  model covers the code points below 256. The source treats every character outside ASCII
  like any other character outside its character classes.
\<close>

definition bt :: char where
  "bt = CHR 0x60"

definition dq :: char where
  "dq = CHR 0x22"

text \<open>\<^verbatim>\<open>str.lower\<close> on one code point below 256: the ASCII and the Latin-1 capitals move by 32.\<close>

definition lower :: "char \<Rightarrow> char" where
  "lower c =
     (if (CHR ''A'' \<le> c \<and> c \<le> CHR ''Z'') \<or> (CHR 0xC0 \<le> c \<and> c \<le> CHR 0xDE \<and> c \<noteq> CHR 0xD7)
      then char_of (of_char c + (32::nat)) else c)"

text \<open>\<^verbatim>\<open>str.isdigit\<close> on one code point below 256: the ASCII digits and the superscripts 1, 2, 3.\<close>

definition isdigit :: "char \<Rightarrow> bool" where
  "isdigit c = ((CHR ''0'' \<le> c \<and> c \<le> CHR ''9'') \<or> c = CHR 0xB2 \<or> c = CHR 0xB3 \<or> c = CHR 0xB9)"

text \<open>\<^verbatim>\<open>s.replace(old, new)\<close> where \<^verbatim>\<open>old\<close> is one character, as in both uses of the source.\<close>

definition replace :: "char \<Rightarrow> string \<Rightarrow> string \<Rightarrow> string" where
  "replace old new s = concat (map (\<lambda>c. if c = old then new else [c]) s)"

text \<open>\<^verbatim>\<open>sep.join(parts)\<close>.\<close>

fun join :: "string \<Rightarrow> string list \<Rightarrow> string" where
  "join sep [] = []"
| "join sep [p] = p"
| "join sep (p # q # ps) = p @ sep @ join sep (q # ps)"

text \<open>\<^verbatim>\<open>s.ljust(w)\<close>: pad with spaces on the right up to width \<open>w\<close>.\<close>

definition ljust :: "string \<Rightarrow> nat \<Rightarrow> string" where
  "ljust s w = s @ replicate (w - length s) CHR '' ''"

subsection \<open>Decimal rendering of integers\<close>

definition digit_char :: "nat \<Rightarrow> char" where
  "digit_char d = char_of (48 + d)"

function str_nat :: "nat \<Rightarrow> string" where
  "str_nat n = (if n < 10 then [digit_char n] else str_nat (n div 10) @ [digit_char (n mod 10)])"
  by pat_completeness auto
termination
  by (relation "measure id") auto

declare str_nat.simps [simp del]

text \<open>\<^verbatim>\<open>str(i)\<close> for a Python \<^verbatim>\<open>int\<close>.\<close>

definition str_int :: "int \<Rightarrow> string" where
  "str_int i = (if i < 0 then CHR ''-'' # str_nat (nat (- i)) else str_nat (nat i))"

subsection \<open>\<^verbatim>\<open>repr\<close> of a string\<close>

definition hex_digit :: "nat \<Rightarrow> char" where
  "hex_digit d = (if d < 10 then char_of (48 + d) else char_of (87 + d))"

definition printable :: "char \<Rightarrow> bool" where
  "printable c =
     ((CHR '' '' \<le> c \<and> c < CHR 0x7F) \<or> (CHR 0xA1 \<le> c \<and> c \<noteq> CHR 0xAD))"

definition repr_char :: "char \<Rightarrow> char \<Rightarrow> string" where
  "repr_char quote c =
     (if c = quote \<or> c = CHR 0x5C then [CHR 0x5C, c]
      else if c = CHR 0x09 then [CHR 0x5C, CHR ''t'']
      else if c = CHR 0x0A then [CHR 0x5C, CHR ''n'']
      else if c = CHR 0x0D then [CHR 0x5C, CHR ''r'']
      else if printable c then [c]
      else [CHR 0x5C, CHR ''x'', hex_digit (of_char c div 16), hex_digit (of_char c mod 16)])"

text \<open>
  \<^verbatim>\<open>repr(s)\<close>, which the format \<^verbatim>\<open>{raw_name!r}\<close> applies: single quotes, unless the string
  holds a single quote and no double quote.
\<close>

definition repr :: "string \<Rightarrow> string" where
  "repr s =
     (let quote = (if CHR 0x27 \<in> set s \<and> dq \<notin> set s then dq else CHR 0x27)
      in quote # concat (map (repr_char quote) s) @ [quote])"

section \<open>Regular expressions\<close>

text \<open>
  The fragment of Python's \<^verbatim>\<open>re\<close> syntax the source uses. A character class is the list
  of its ranges; \<^verbatim>\<open>[A-Za-z0-9_-]\<close> ends with the literal hyphen.
\<close>

type_synonym char_class = "(char \<times> char) list"

definition in_class :: "char_class \<Rightarrow> char \<Rightarrow> bool" where
  "in_class cls c = list_ex (\<lambda>(lo, hi). lo \<le> c \<and> c \<le> hi) cls"

definition word_class :: char_class where
  "word_class =
     [(CHR ''A'', CHR ''Z''), (CHR ''a'', CHR ''z''), (CHR ''0'', CHR ''9''), (CHR ''_'', CHR ''_'')]"

definition project_class :: char_class where
  "project_class =
     [(CHR ''A'', CHR ''Z''), (CHR ''a'', CHR ''z''), (CHR ''0'', CHR ''9''), (CHR ''_'', CHR ''_''),
      (CHR ''-'', CHR ''-'')]"

datatype regex =
    Lit char
  | NotIn char_class
  | Plus char_class
  | Group string regex
  | Opt regex
  | Seq regex regex

text \<open>
  A match object carries the text of the named groups that took part in the match;
  \<^verbatim>\<open>match.group(name)\<close> is \<^verbatim>\<open>None\<close> for a group that did not.
\<close>

type_synonym groups = "(string \<times> string) list"

definition group :: "groups \<Rightarrow> string \<Rightarrow> string option" where
  "group m name = map_of m name"

text \<open>
  \<^verbatim>\<open>[...]+\<close> is greedy: after one character of the class it first tries to take more and
  only then stops. \<open>class_plus\<close> lists what is left of the input after each way to match,
  in the order the backtracking matcher tries them (longest match first).
\<close>

fun class_plus :: "char_class \<Rightarrow> string \<Rightarrow> string list" where
  "class_plus cls [] = []"
| "class_plus cls (c # cs) = (if in_class cls c then class_plus cls cs @ [cs] else [])"

text \<open>
  All ways to match a regular expression at the start of a string, in the order the
  backtracking matcher explores them, each with its groups and the rest of the input.
  A greedy optional part \<^verbatim>\<open>(?:...)?\<close> is tried first and skipped second.
\<close>

fun matches :: "regex \<Rightarrow> string \<Rightarrow> (groups \<times> string) list" where
  "matches (Lit x) s = (case s of [] \<Rightarrow> [] | c # cs \<Rightarrow> if c = x then [([], cs)] else [])"
| "matches (NotIn cls) s =
     (case s of [] \<Rightarrow> [] | c # cs \<Rightarrow> if in_class cls c then [] else [([], cs)])"
| "matches (Plus cls) s = map (Pair []) (class_plus cls s)"
| "matches (Group name r) s =
     map (\<lambda>(g, rest). (g @ [(name, take (length s - length rest) s)], rest)) (matches r s)"
| "matches (Opt r) s = matches r s @ [([], s)]"
| "matches (Seq r1 r2) s =
     concat (map (\<lambda>(g1, rest1). map (\<lambda>(g2, rest2). (g1 @ g2, rest2)) (matches r2 rest1))
       (matches r1 s))"

text \<open>\<^verbatim>\<open>pattern.match\<close> at the start of \<open>s\<close>: the first way that succeeds.\<close>

definition re_match :: "regex \<Rightarrow> string \<Rightarrow> (groups \<times> string) option" where
  "re_match p s = (case matches p s of [] \<Rightarrow> None | m # _ \<Rightarrow> Some m)"

text \<open>
  \<^verbatim>\<open>pattern.sub(repl, s)\<close>: scan from the left; at a position where the pattern matches,
  emit the replacement and go on after the match; elsewhere copy one character. An empty
  match is replaced and the scan moves one character on.
\<close>

function re_sub :: "regex \<Rightarrow> (groups \<Rightarrow> string) \<Rightarrow> string \<Rightarrow> string" where
  "re_sub p repl [] = (case re_match p [] of None \<Rightarrow> [] | Some (m, rest) \<Rightarrow> repl m)"
| "re_sub p repl (c # cs) =
     (case re_match p (c # cs) of
        None \<Rightarrow> c # re_sub p repl cs
      | Some (m, rest) \<Rightarrow>
          if length rest < length (c # cs) then repl m @ re_sub p repl rest
          else repl m @ c # re_sub p repl cs)"
  by pat_completeness auto
termination
  by (relation "measure (\<lambda>(p, repl, s). length s)") auto

section \<open>The identifier sanitizer\<close>

datatype error =
    ValueError string
  | FileNotFoundError string
  | IndexError
  | StopIteration

text \<open>
  \<^verbatim>\<open>
  def sanitize_table_name(raw_name: str) -> str:
      sanitized = re.sub(r"[^A-Za-z0-9_]", "_", raw_name).lower()
      if not sanitized:
          raise ValueError(f"Unable to create table name from: {raw_name!r}")
      if sanitized[0].isdigit():
          sanitized = f"t_{sanitized}"
      return sanitized
  \<close>
\<close>

definition sanitize_table_name :: "string \<Rightarrow> error + string" where
  "sanitize_table_name raw_name =
     (let sanitized = map lower (re_sub (NotIn word_class) (\<lambda>m. ''_'') raw_name)
      in if sanitized = [] then Inl (ValueError (''Unable to create table name from: '' @ repr raw_name))
         else if isdigit (hd sanitized) then Inr (''t_'' @ sanitized)
         else Inr sanitized)"

section \<open>The dialect translator\<close>

text \<open>
  \<^verbatim>\<open>
  BIGQUERY_TABLE_PATTERN = re.compile(
      r"`(?:(?P<project>[A-Za-z0-9_-]+)\.)?(?P<dataset>[A-Za-z0-9_]+)\.(?P<table>[A-Za-z0-9_]+)`")
  BIGQUERY_TWO_PART_PATTERN = re.compile(
      r"`(?P<dataset>[A-Za-z0-9_]+)\.(?P<table>[A-Za-z0-9_]+)`")
  \<close>
\<close>

definition BIGQUERY_TABLE_PATTERN :: regex where
  "BIGQUERY_TABLE_PATTERN =
     Seq (Lit bt)
       (Seq (Opt (Seq (Group ''project'' (Plus project_class)) (Lit CHR ''.'')))
         (Seq (Group ''dataset'' (Plus word_class))
           (Seq (Lit CHR ''.'')
             (Seq (Group ''table'' (Plus word_class)) (Lit bt)))))"

definition BIGQUERY_TWO_PART_PATTERN :: regex where
  "BIGQUERY_TWO_PART_PATTERN =
     Seq (Lit bt)
       (Seq (Group ''dataset'' (Plus word_class))
         (Seq (Lit CHR ''.'')
           (Seq (Group ''table'' (Plus word_class)) (Lit bt))))"

text \<open>An f-string field \<^verbatim>\<open>{x}\<close> prints \<^verbatim>\<open>None\<close> as the word \<^verbatim>\<open>None\<close>.\<close>

definition fmt :: "string option \<Rightarrow> string" where
  "fmt x = (case x of None \<Rightarrow> ''None'' | Some s \<Rightarrow> s)"

text \<open>The text \<^verbatim>\<open>"{dataset}"."{table}"\<close>.\<close>

definition quoted_pair :: "string \<Rightarrow> string \<Rightarrow> string" where
  "quoted_pair dataset table = [dq] @ dataset @ [dq, CHR ''.'', dq] @ table @ [dq]"

definition replace_three_part :: "groups \<Rightarrow> string" where
  "replace_three_part m =
     (let dataset = group m ''dataset''; table = group m ''table''
      in quoted_pair (fmt dataset) (fmt table))"

text \<open>\<^verbatim>\<open>match.group("dataset") or default_dataset\<close>: the default replaces \<^verbatim>\<open>None\<close> and the empty string.\<close>

definition replace_two_part :: "string \<Rightarrow> groups \<Rightarrow> string" where
  "replace_two_part default_dataset m =
     (let dataset = (case group m ''dataset'' of
                       None \<Rightarrow> default_dataset
                     | Some d \<Rightarrow> if d = [] then default_dataset else d);
          table = group m ''table''
      in quoted_pair dataset (fmt table))"

text \<open>
  \<^verbatim>\<open>
  translated = BIGQUERY_TABLE_PATTERN.sub(replace_three_part, sql)
  translated = BIGQUERY_TWO_PART_PATTERN.sub(replace_two_part, translated)
  translated = translated.replace("`", '"')
  return translated
  \<close>
\<close>

definition translate_bigquery_sql :: "string \<Rightarrow> string \<Rightarrow> string" where
  "translate_bigquery_sql sql default_dataset =
     (let translated = re_sub BIGQUERY_TABLE_PATTERN replace_three_part sql;
          translated = re_sub BIGQUERY_TWO_PART_PATTERN (replace_two_part default_dataset) translated;
          translated = replace bt [dq] translated
      in translated)"

section \<open>The table registrar\<close>

text \<open>
  Paths, the file system and the engine are not code of the repository. A path is a value
  of a linearly ordered type \<open>'p\<close> (\<^verbatim>\<open>sorted\<close> compares paths), and a \<open>world\<close> holds what
  the program asks of them: the text of a path, the result of \<^verbatim>\<open>glob("*.parquet")\<close> in a
  directory (in any order), \<^verbatim>\<open>stem\<close>, \<^verbatim>\<open>name\<close>, \<^verbatim>\<open>resolve().as_posix()\<close>, \<^verbatim>\<open>read_text\<close>, and
  what the engine answers to a query after the statements executed before it.
\<close>

type_synonym row = "string option list"

record cursor =
  description :: "string list option"
  fetchmany :: "int \<Rightarrow> row list"

record 'p world =
  path_str :: "'p \<Rightarrow> string"
  glob_parquet :: "'p \<Rightarrow> 'p list"
  stem :: "'p \<Rightarrow> string"
  name :: "'p \<Rightarrow> string"
  resolve_posix :: "'p \<Rightarrow> string"
  read_text :: "'p \<Rightarrow> error + string"
  run_query :: "string list \<Rightarrow> string \<Rightarrow> string + cursor"

text \<open>
  A connection is the list of the statements executed on it, oldest first. The statements of
  the registrar (\<^verbatim>\<open>CREATE SCHEMA IF NOT EXISTS\<close>, \<^verbatim>\<open>CREATE OR REPLACE VIEW\<close>) are taken to succeed.
\<close>

type_synonym connection = "string list"

definition execute :: "connection \<Rightarrow> string \<Rightarrow> connection" where
  "execute connection statement = connection @ [statement]"

text \<open>A \<^verbatim>\<open>dict\<close> keeps insertion order: an association list; assigning to a bound key keeps its place.\<close>

type_synonym ('k, 'v) dict = "('k \<times> 'v) list"

fun dict_set :: "('k, 'v) dict \<Rightarrow> 'k \<Rightarrow> 'v \<Rightarrow> ('k, 'v) dict" where
  "dict_set [] k v = [(k, v)]"
| "dict_set ((k', v') # d) k v = (if k' = k then (k, v) # d else (k', v') # dict_set d k v)"

definition keys :: "('k, 'v) dict \<Rightarrow> 'k set" where
  "keys d = fst ` set d"

text \<open>The value of a decimal numeral, used to see that the names \<^verbatim>\<open>base_2\<close>, \<^verbatim>\<open>base_3\<close>, ... differ.\<close>

definition nat_of_str :: "string \<Rightarrow> nat" where
  "nat_of_str s = foldl (\<lambda>a c. 10 * a + (of_char c - 48)) 0 s"

text \<open>
  \<^verbatim>\<open>
  while table_name in loaded_tables:
      suffix += 1
      table_name = f"{base_table_name}_{suffix}"
  \<close>
\<close>

function free_table_name :: "string \<Rightarrow> (string, 'p) dict \<Rightarrow> nat \<Rightarrow> string \<Rightarrow> string" where
  "free_table_name base_table_name loaded_tables suffix table_name =
     (if table_name \<in> keys loaded_tables
      then free_table_name base_table_name loaded_tables (suffix + 1)
             (base_table_name @ ''_'' @ str_nat (suffix + 1))
      else table_name)"
  by pat_completeness auto
termination
proof (relation "measure (\<lambda>(base, loaded, suffix, table_name).
          card {j. suffix < j \<and> base @ ''_'' @ str_nat j \<in> keys loaded}
          + (if table_name \<in> keys loaded then 1 else 0))", goal_cases)
  case 1
  show ?case by simp
next
  case (2 base loaded suffix table_name)
  have digit: "of_char (digit_char d) - 48 = d" if "d < 10" for d :: nat
    using that by (simp add: digit_char_def)
  have inv: "nat_of_str (str_nat n) = n" for n
  proof (induction n rule: str_nat.induct)
    case (1 n)
    show ?case
    proof (cases "n < 10")
      case True
      then show ?thesis
        by (subst str_nat.simps) (simp add: nat_of_str_def digit)
    next
      case False
      have "nat_of_str (str_nat n) = 10 * nat_of_str (str_nat (n div 10)) + n mod 10"
        using False by (subst str_nat.simps) (simp add: nat_of_str_def digit)
      with 1 False show ?thesis by simp
    qed
  qed
  let ?A = "\<lambda>k. {j. k < j \<and> base @ ''_'' @ str_nat j \<in> keys loaded}"
  have sub: "?A suffix \<subseteq> (\<lambda>key. nat_of_str (drop (Suc (length base)) key)) ` keys loaded"
  proof
    fix j assume "j \<in> ?A suffix"
    then have mem: "base @ ''_'' @ str_nat j \<in> keys loaded" by simp
    have "nat_of_str (drop (Suc (length base)) (base @ ''_'' @ str_nat j)) = j"
      by (simp add: inv)
    with mem show "j \<in> (\<lambda>key. nat_of_str (drop (Suc (length base)) key)) ` keys loaded"
      by (metis (no_types, lifting) image_eqI)
  qed
  have fin: "finite (?A suffix)"
    by (rule finite_subset [OF sub]) (simp add: keys_def)
  have split: "?A suffix =
      ?A (Suc suffix) \<union> (if base @ ''_'' @ str_nat (Suc suffix) \<in> keys loaded then {Suc suffix} else {})"
    by (auto simp: less_Suc_eq Suc_less_eq2 dest: Suc_lessI)
  have fin': "finite (?A (Suc suffix))"
    by (rule finite_subset [OF _ fin]) auto
  have notin: "Suc suffix \<notin> ?A (Suc suffix)" by simp
  have "card (?A suffix) =
      card (?A (Suc suffix)) + (if base @ ''_'' @ str_nat (Suc suffix) \<in> keys loaded then 1 else 0)"
  proof (cases "base @ ''_'' @ str_nat (Suc suffix) \<in> keys loaded")
    case True
    then have "?A suffix = insert (Suc suffix) (?A (Suc suffix))"
      using split by auto
    then have "card (?A suffix) = Suc (card (?A (Suc suffix)))"
      using card_insert_disjoint [OF fin' notin] by simp
    with True show ?thesis by simp
  next
    case False
    then have "?A suffix = ?A (Suc suffix)"
      using split by auto
    with False show ?thesis by simp
  qed
  with 2 show ?case by simp
qed

declare free_table_name.simps [simp del]

text \<open>
  One turn of \<^verbatim>\<open>for parquet_file in files\<close> and the rest of the loop. The \<^verbatim>\<open>ValueError\<close> of the
  sanitizer leaves the loop with the statements executed so far.
\<close>

definition create_schema_sql :: "string \<Rightarrow> string" where
  "create_schema_sql dataset = ''CREATE SCHEMA IF NOT EXISTS '' @ [dq] @ dataset @ [dq]"

definition create_view_sql :: "string \<Rightarrow> string \<Rightarrow> string \<Rightarrow> string" where
  "create_view_sql dataset table_name parquet_path_sql =
     [CHR 0x0A] @ replicate 12 CHR '' '' @ ''CREATE OR REPLACE VIEW '' @ quoted_pair dataset table_name
       @ '' AS'' @ [CHR 0x0A] @ replicate 12 CHR '' '' @ ''SELECT * FROM read_parquet('' @ [CHR 0x27]
       @ parquet_path_sql @ [CHR 0x27] @ '')'' @ [CHR 0x0A] @ replicate 12 CHR '' ''"

definition mirror_view_sql :: "string \<Rightarrow> string \<Rightarrow> string" where
  "mirror_view_sql dataset table_name =
     ''CREATE OR REPLACE VIEW '' @ [dq] @ table_name @ [dq] @ '' AS SELECT * FROM ''
       @ quoted_pair dataset table_name"

fun register_files ::
  "'p world \<Rightarrow> string \<Rightarrow> 'p list \<Rightarrow> connection \<Rightarrow> (string, 'p) dict
     \<Rightarrow> (error + (string, 'p) dict) \<times> connection" where
  "register_files w dataset [] connection loaded_tables = (Inr loaded_tables, connection)"
| "register_files w dataset (parquet_file # files) connection loaded_tables =
     (case sanitize_table_name (stem w parquet_file) of
        Inl e \<Rightarrow> (Inl e, connection)
      | Inr base_table_name \<Rightarrow>
          (let table_name = free_table_name base_table_name loaded_tables 1 base_table_name;
               parquet_path_sql = replace CHR 0x27 [CHR 0x27, CHR 0x27] (resolve_posix w parquet_file);
               connection = execute connection (create_view_sql dataset table_name parquet_path_sql);
               connection = execute connection (mirror_view_sql dataset table_name);
               loaded_tables = dict_set loaded_tables table_name parquet_file
           in register_files w dataset files connection loaded_tables))"

text \<open>
  \<^verbatim>\<open>
  files = sorted(data_dir.glob("*.parquet"))
  if not files:
      raise FileNotFoundError(f"No parquet files found in {data_dir}")
  connection.execute(f'CREATE SCHEMA IF NOT EXISTS "{dataset}"')
  loaded_tables: dict[str, Path] = {}
  for parquet_file in files: ...
  return loaded_tables
  \<close>
\<close>

definition register_parquet_tables ::
  "('p::linorder) world \<Rightarrow> connection \<Rightarrow> 'p \<Rightarrow> string
     \<Rightarrow> (error + (string, 'p) dict) \<times> connection" where
  "register_parquet_tables w connection data_dir dataset =
     (let files = sort (glob_parquet w data_dir)
      in if files = [] then
           (Inl (FileNotFoundError (''No parquet files found in '' @ path_str w data_dir)), connection)
         else
           (let connection = execute connection (create_schema_sql dataset)
            in register_files w dataset files connection []))"

section \<open>The result renderer\<close>

text \<open>\<^verbatim>\<open>xs[:n]\<close>: a negative \<open>n\<close> counts from the end.\<close>

definition slice_to :: "'a list \<Rightarrow> int \<Rightarrow> 'a list" where
  "slice_to xs n = (if n < 0 then take (nat (int (length xs) + n)) xs else take (nat n) xs)"

text \<open>
  \<^verbatim>\<open>
  for row in string_rows:
      for i, value in enumerate(row):
          widths[i] = max(widths[i], len(value))
  \<close>
  \<^verbatim>\<open>widths[i]\<close> raises \<^verbatim>\<open>IndexError\<close> for a row longer than the column description.
\<close>

fun widen_row :: "nat list \<Rightarrow> nat \<Rightarrow> string list \<Rightarrow> error + nat list" where
  "widen_row widths i [] = Inr widths"
| "widen_row widths i (v # vs) =
     (if i < length widths then widen_row (widths[i := max (widths ! i) (length v)]) (Suc i) vs
      else Inl IndexError)"

fun widen :: "nat list \<Rightarrow> string list list \<Rightarrow> error + nat list" where
  "widen widths [] = Inr widths"
| "widen widths (r # rs) =
     (case widen_row widths 0 r of Inl e \<Rightarrow> Inl e | Inr widths' \<Rightarrow> widen widths' rs)"

definition str_value :: "string option \<Rightarrow> string" where
  "str_value v = (case v of None \<Rightarrow> ''NULL'' | Some s \<Rightarrow> s)"

definition format_row :: "nat list \<Rightarrow> string list \<Rightarrow> string" where
  "format_row widths r = join '' | '' (map (\<lambda>(i, v). ljust v (widths ! i)) (enumerate 0 r))"

definition truncation_notice :: "int \<Rightarrow> string" where
  "truncation_notice max_rows = ''... showing first '' @ str_int max_rows @ '' rows''"

text \<open>
  The lines \<^verbatim>\<open>print_results\<close> prints, or the exception it raises before it prints anything.
  A cell is \<^verbatim>\<open>None\<close> or carries the \<^verbatim>\<open>str\<close> of its value.
  \<^verbatim>\<open>
  if cursor.description is None:
      print("Statement executed successfully."); return
  columns = [col[0] for col in cursor.description]
  rows = cursor.fetchmany(max_rows + 1)
  has_more_rows = len(rows) > max_rows
  rows = rows[:max_rows]
  string_rows = [[("NULL" if value is None else str(value)) for value in row] for row in rows]
  widths = [len(col) for col in columns]
  ...
  if has_more_rows:
      print(f"... showing first {max_rows} rows")
  \<close>
\<close>

definition print_results :: "cursor \<Rightarrow> int \<Rightarrow> error + string list" where
  "print_results cursor max_rows =
     (case description cursor of
        None \<Rightarrow> Inr [''Statement executed successfully.'']
      | Some columns \<Rightarrow>
          (let rows = fetchmany cursor (max_rows + 1);
               has_more_rows = (int (length rows) > max_rows);
               rows = slice_to rows max_rows;
               string_rows = map (map str_value) rows
           in case widen (map length columns) string_rows of
                Inl e \<Rightarrow> Inl e
              | Inr widths \<Rightarrow>
                  (let header = format_row widths columns;
                       separator = join ''-+-'' (map (\<lambda>width. replicate width CHR ''-'') widths)
                   in Inr ([header, separator] @ map (format_row widths) string_rows
                        @ (if has_more_rows then [truncation_notice max_rows] else [])))))"

section \<open>The command orchestrator\<close>

datatype dialect = Bigquery | Duckdb

record 'p args =
  data_dir :: 'p
  dataset :: string
  dialect :: dialect
  query :: "string option"
  query_file :: "'p option"
  show_sql :: bool
  max_rows :: int

text \<open>
  What a run does to the outside, in order, and how it ends. \<^verbatim>\<open>SystemExit\<close> with a message
  prints the message and ends the process with status 1; an exception nothing catches ends it
  with a traceback and status 1; \<open>Returned\<close> is status 0.
\<close>

datatype 'p event = Connect | Glob 'p | Execute string | ReadText 'p | Print string

datatype outcome = Returned | SystemExit string | Uncaught error

definition exit_status :: "outcome \<Rightarrow> nat" where
  "exit_status out = (case out of Returned \<Rightarrow> 0 | _ \<Rightarrow> 1)"

text \<open>The branch \<^verbatim>\<open>if not query_text\<close>: list the tables and print an example.\<close>

definition list_tables :: "'p world \<Rightarrow> 'p args \<Rightarrow> (string, 'p) dict \<Rightarrow> 'p event list \<times> outcome" where
  "list_tables w a tables =
     (let listing = Print ''Loaded parquet tables:'' #
            map (\<lambda>(table_name, source_file).
                   Print (''- '' @ dataset a @ ''.'' @ table_name @ '' <- '' @ name w source_file)) tables
      in case tables of
           [] \<Rightarrow> (listing, Uncaught StopIteration)
         | (example_table, source_file) # rest \<Rightarrow>
             (listing @
                [Print (CHR 0x0A # ''Example:''),
                 Print (''uv run python main.py --query '' @ [CHR 0x27]
                   @ ''SELECT COUNT(*) AS trips FROM '' @ [bt] @ ''local.'' @ dataset a @ ''.''
                   @ example_table @ [bt, CHR 0x27])],
              Returned))"

text \<open>Translate, show, execute and render a query text that is not empty.\<close>

definition run_sql :: "'p world \<Rightarrow> 'p args \<Rightarrow> connection \<Rightarrow> string \<Rightarrow> 'p event list \<times> outcome" where
  "run_sql w a connection query_text =
     (let translated_query =
            (if dialect a = Bigquery then translate_bigquery_sql query_text (dataset a)
             else query_text);
          shown = (if show_sql a
                   then [Print ''SQL sent to DuckDB:'', Print translated_query, Print []] else [])
      in case run_query w connection translated_query of
           Inl exc \<Rightarrow> (shown @ [Execute translated_query], SystemExit (''Query failed: '' @ exc))
         | Inr cursor \<Rightarrow>
             (case print_results cursor (max_rows a) of
                Inl e \<Rightarrow> (shown @ [Execute translated_query], Uncaught e)
              | Inr lines \<Rightarrow> (shown @ [Execute translated_query] @ map Print lines, Returned)))"

definition with_query_text ::
  "'p world \<Rightarrow> 'p args \<Rightarrow> connection \<Rightarrow> (string, 'p) dict \<Rightarrow> string option
     \<Rightarrow> 'p event list \<times> outcome" where
  "with_query_text w a connection tables query_text =
     (case query_text of
        None \<Rightarrow> list_tables w a tables
      | Some t \<Rightarrow> if t = [] then list_tables w a tables else run_sql w a connection t)"

text \<open>A string is true when it is not empty; \<^verbatim>\<open>None\<close> is false; a \<^verbatim>\<open>Path\<close> is always true.\<close>

definition truthy_str :: "string option \<Rightarrow> bool" where
  "truthy_str x = (case x of None \<Rightarrow> False | Some t \<Rightarrow> t \<noteq> [])"

definition truthy_path :: "'p option \<Rightarrow> bool" where
  "truthy_path x = (case x of None \<Rightarrow> False | Some f \<Rightarrow> True)"

text \<open>
  \<^verbatim>\<open>
  args = parse_args()
  if args.query and args.query_file:
      raise SystemExit("Use either --query or --query-file, not both.")
  connection = duckdb.connect(database=":memory:")
  tables = register_parquet_tables(connection, args.data_dir, args.dataset)
  query_text: str | None = args.query
  if args.query_file is not None:
      query_text = args.query_file.read_text(encoding="utf-8")
  if not query_text: ...
  \<close>
\<close>

definition main :: "('p::linorder) world \<Rightarrow> 'p args \<Rightarrow> 'p event list \<times> outcome" where
  "main w a =
     (if truthy_str (query a) \<and> truthy_path (query_file a)
      then ([], SystemExit ''Use either --query or --query-file, not both.'')
      else
        (case register_parquet_tables w [] (data_dir a) (dataset a) of
           (Inl e, connection) \<Rightarrow> (Connect # Glob (data_dir a) # map Execute connection, Uncaught e)
         | (Inr tables, connection) \<Rightarrow>
             (let io = Connect # Glob (data_dir a) # map Execute connection
              in case query_file a of
                   None \<Rightarrow>
                     (let (evs, out) = with_query_text w a connection tables (query a)
                      in (io @ evs, out))
                 | Some f \<Rightarrow>
                     (case read_text w f of
                        Inl e \<Rightarrow> (io @ [ReadText f], Uncaught e)
                      | Inr t \<Rightarrow>
                          (let (evs, out) = with_query_text w a connection tables (Some t)
                           in (io @ [ReadText f] @ evs, out))))))"

section \<open>Notions used to state the properties\<close>

text \<open>The class \<^verbatim>\<open>[a-z0-9_]\<close>.\<close>

definition lower_word_class :: char_class where
  "lower_word_class = [(CHR ''a'', CHR ''z''), (CHR ''0'', CHR ''9''), (CHR ''_'', CHR ''_'')]"

text \<open>The character-substituted, lower-cased form of a raw name.\<close>

definition substituted :: "string \<Rightarrow> string" where
  "substituted r = map (\<lambda>c. lower (if in_class word_class c then c else CHR ''_'')) r"

text \<open>
  The shape of the text after an opening backtick, read without backtracking: a segment is a
  longest run of characters of a class, not empty, followed by a given character.
\<close>

definition segment :: "char_class \<Rightarrow> char \<Rightarrow> string \<Rightarrow> (string \<times> string) option" where
  "segment cls x s =
     (if takeWhile (in_class cls) s = [] then None
      else case dropWhile (in_class cls) s of
             [] \<Rightarrow> None
           | c # rest \<Rightarrow> if c = x then Some (takeWhile (in_class cls) s, rest) else None)"

definition two_part :: "string \<Rightarrow> (string \<times> string \<times> string) option" where
  "two_part s =
     (case segment word_class CHR ''.'' s of
        None \<Rightarrow> None
      | Some (d, r) \<Rightarrow>
          (case segment word_class bt r of None \<Rightarrow> None | Some (t, r') \<Rightarrow> Some (d, t, r')))"

definition three_part :: "string \<Rightarrow> (string \<times> string \<times> string \<times> string) option" where
  "three_part s =
     (case segment project_class CHR ''.'' s of
        None \<Rightarrow> None
      | Some (p, r) \<Rightarrow> (case two_part r of None \<Rightarrow> None | Some (d, t, r') \<Rightarrow> Some (p, d, t, r')))"

definition table_ref :: "string \<Rightarrow> (string \<times> string \<times> string) option" where
  "table_ref s = (case three_part s of None \<Rightarrow> two_part s | Some (p, d, t, r) \<Rightarrow> Some (d, t, r))"

definition three_part_pass :: "string \<Rightarrow> string" where
  "three_part_pass sql = re_sub BIGQUERY_TABLE_PATTERN replace_three_part sql"

definition two_part_pass :: "string \<Rightarrow> string \<Rightarrow> string" where
  "two_part_pass default_dataset sql =
     re_sub BIGQUERY_TWO_PART_PATTERN (replace_two_part default_dataset) sql"

text \<open>
  Whether the scan of the first pass, run on a text that continues with a backtick, comes to
  that backtick: at a backtick of the text before it, a reference that ends inside the text is
  stepped over, and the text between that backtick and the next one must not make a reference
  closed by the backtick that follows, since the match would take it.
\<close>

function arrives :: "string \<Rightarrow> bool" where
  "arrives [] = True"
| "arrives (c # cs) =
     (if c = bt then
        (case table_ref cs of
           Some (d, t, r) \<Rightarrow> arrives r
         | None \<Rightarrow> table_ref (cs @ [bt]) = None \<and> arrives cs)
      else arrives cs)"
  by pat_completeness auto
termination
proof -
  have seg: "length rest < length s" if "segment cls z s = Some (run, rest)" for cls z s run rest
  proof -
    from that have "dropWhile (in_class cls) s = z # rest"
      by (auto simp: segment_def split: if_splits list.splits)
    then have "length (z # rest) \<le> length s"
      by (metis length_dropWhile_le)
    then show ?thesis by simp
  qed
  have two: "length r' < length s" if "two_part s = Some (d', t', r')" for s d' t' r'
  proof -
    from that obtain r1 where 1: "segment word_class CHR ''.'' s = Some (d', r1)"
      and 2: "segment word_class bt r1 = Some (t', r')"
      by (auto simp: two_part_def split: option.splits)
    from seg [OF 1] seg [OF 2] show ?thesis by simp
  qed
  have three: "length r' < length s" if "three_part s = Some (p', d', t', r')" for s p' d' t' r'
  proof -
    from that obtain r1 where 1: "segment project_class CHR ''.'' s = Some (p', r1)"
      and 2: "two_part r1 = Some (d', t', r')"
      by (auto simp: three_part_def split: option.splits)
    from seg [OF 1] two [OF 2] show ?thesis by simp
  qed
  have ref: "length r < Suc (length cs)" if "table_ref cs = Some (d, t, r)" for cs d t r
  proof (cases "three_part cs")
    case None
    with that have "two_part cs = Some (d, t, r)" by (simp add: table_ref_def)
    from two [OF this] show ?thesis by simp
  next
    case (Some x)
    obtain p' d' t' r' where x: "x = (p', d', t', r')" by (cases x)
    with Some that have "r' = r" by (simp add: table_ref_def)
    with three [OF Some [unfolded x]] show ?thesis by simp
  qed
  show ?thesis
    by (relation "measure length") (auto dest: ref)
qed

text \<open>The name \<^verbatim>\<open>f"{base}_{k}"\<close>.\<close>

definition numbered :: "string \<Rightarrow> nat \<Rightarrow> string" where
  "numbered base k = base @ ''_'' @ str_nat k"

text \<open>
  The name chosen for a base name against the names bound so far: the base name if it is
  free, and else the base name with the first suffix \<^verbatim>\<open>_2\<close>, \<^verbatim>\<open>_3\<close>, ... that is free.
\<close>

definition chosen_name :: "string \<Rightarrow> string set \<Rightarrow> string \<Rightarrow> bool" where
  "chosen_name base bound table_name \<longleftrightarrow>
     (base \<notin> bound \<and> table_name = base) \<or>
     (base \<in> bound \<and>
      (\<exists>k\<ge>2. table_name = numbered base k \<and> table_name \<notin> bound \<and>
         (\<forall>j. 2 \<le> j \<and> j < k \<longrightarrow> numbered base j \<in> bound)))"

text \<open>
  A world for concrete runs: paths are file names, the directory holds the given files, the
  stem of a name drops its last eight characters (\<^verbatim>\<open>.parquet\<close>), every file read holds
  \<^verbatim>\<open>SELECT 1\<close> and every query returns one row with one column.
\<close>

definition example_world :: "string list \<Rightarrow> string world" where
  "example_world files =
     \<lparr>path_str = (\<lambda>p. p),
      glob_parquet = (\<lambda>d. files),
      stem = (\<lambda>p. take (length p - 8) p),
      name = (\<lambda>p. p),
      resolve_posix = (\<lambda>p. ''/data/'' @ p),
      read_text = (\<lambda>p. Inr ''SELECT 1''),
      run_query = (\<lambda>connection q.
        Inr \<lparr>description = Some [''n''], fetchmany = (\<lambda>n. take (nat n) [[Some ''1'']])\<rparr>)\<rparr>"

text \<open>A cursor over given columns and rows; \<^verbatim>\<open>fetchmany(n)\<close> returns the first \<open>n\<close> rows.\<close>

definition cursor_of :: "string list \<Rightarrow> row list \<Rightarrow> cursor" where
  "cursor_of columns rows = \<lparr>description = Some columns, fetchmany = (\<lambda>n. take (nat n) rows)\<rparr>"

text \<open>
  A cursor is a result set with the given columns and rows when it has this column
  description, \<^verbatim>\<open>fetchmany(n)\<close> returns the first \<open>n\<close> rows for \<open>n \<ge> 0\<close>, and every row has one cell
  for each column.
\<close>

definition result_set :: "cursor \<Rightarrow> string list \<Rightarrow> row list \<Rightarrow> bool" where
  "result_set cursor columns rows \<longleftrightarrow>
     description cursor = Some columns \<and>
     (\<forall>n\<ge>0. fetchmany cursor n = take (nat n) rows) \<and>
     (\<forall>r \<in> set rows. length r = length columns)"

text \<open>
  What the specification says of rendering \<open>N\<close> rows with \<^verbatim>\<open>max_rows = m\<close>: at most \<open>m + 1\<close> rows
  are fetched, that is, the renderer reads the rows through the one call \<^verbatim>\<open>fetchmany(m + 1)\<close>
  (any cursor with the same description and the same answer to that call is rendered alike)
  and that call returns at most \<open>m + 1\<close> rows; after the header and the separator come exactly
  \<open>min N m\<close> data lines; and a notice that states the number of data lines follows exactly
  when \<open>N > m\<close>.
\<close>

definition render_claim :: "cursor \<Rightarrow> nat \<Rightarrow> int \<Rightarrow> bool" where
  "render_claim cursor N m \<longleftrightarrow>
     (\<forall>other. description other = description cursor \<and>
        fetchmany other (m + 1) = fetchmany cursor (m + 1) \<longrightarrow>
        print_results other m = print_results cursor m) \<and>
     int (length (fetchmany cursor (m + 1))) \<le> m + 1 \<and>
     (\<exists>header separator data.
        print_results cursor m =
          Inr (header # separator # data @
            (if int N > m then [''... showing first '' @ str_int (int (length data)) @ '' rows'']
             else [])) \<and>
        int (length data) = min (int N) m)"

text \<open>A result set of one column and three rows.\<close>

definition three_rows :: cursor where
  "three_rows = cursor_of [''n''] [[Some ''1''], [Some ''2''], [Some ''3'']]"

text \<open>Command lines that differ in \<^verbatim>\<open>--query\<close> and \<^verbatim>\<open>--query-file\<close> only.\<close>

definition example_args :: "string option \<Rightarrow> string option \<Rightarrow> string args" where
  "example_args q f =
     \<lparr>data_dir = ''data'', dataset = ''taxi'', dialect = Bigquery, query = q, query_file = f,
      show_sql = False, max_rows = 20\<rparr>"

text \<open>
  What the specification says of a run with both a \<^verbatim>\<open>--query\<close> and a \<^verbatim>\<open>--query-file\<close> value:
  nothing is done to the outside, and the process ends with a status that is not zero and
  a message of one line.
\<close>

definition conflict_claim :: "('p::linorder) world \<Rightarrow> 'p args \<Rightarrow> bool" where
  "conflict_claim w a \<longleftrightarrow>
     (query a \<noteq> None \<and> query_file a \<noteq> None \<longrightarrow>
        fst (main w a) = [] \<and> exit_status (snd (main w a)) \<noteq> 0 \<and>
        (case snd (main w a) of SystemExit msg \<Rightarrow> CHR 0x0A \<notin> set msg | _ \<Rightarrow> False))"

section \<open>Properties of the sanitizer\<close>

lemma re_match_NotIn_Cons:
  "re_match (NotIn cls) (c # cs) = (if in_class cls c then None else Some ([], cs))"
  by (simp add: re_match_def)

lemma re_match_NotIn_Nil: "re_match (NotIn cls) [] = None"
  by (simp add: re_match_def)

lemma re_sub_NotIn:
  "re_sub (NotIn cls) (\<lambda>m. [x]) s = map (\<lambda>c. if in_class cls c then c else x) s"
  by (induction s) (simp_all add: re_match_NotIn_Cons re_match_NotIn_Nil)

lemma lower_word_char:
  "in_class lower_word_class (lower (if in_class word_class c then c else CHR ''_''))"
  by (auto simp: in_class_def word_class_def lower_word_class_def lower_def less_eq_char_def)

lemma isdigit_lower_word:
  "in_class lower_word_class c \<Longrightarrow> isdigit c = (CHR ''0'' \<le> c \<and> c \<le> CHR ''9'')"
  by (auto simp: in_class_def lower_word_class_def isdigit_def less_eq_char_def)

lemma lower_word_t:
  "in_class lower_word_class CHR ''t''" "in_class lower_word_class CHR ''_''"
  by (simp_all add: in_class_def lower_word_class_def)

lemma sanitize_unfold:
  "sanitize_table_name r =
     (if r = [] then Inl (ValueError (''Unable to create table name from: '' @ repr r))
      else if isdigit (hd (substituted r)) then Inr (''t_'' @ substituted r)
      else Inr (substituted r))"
  by (simp add: sanitize_table_name_def re_sub_NotIn substituted_def Let_def comp_def)

lemma substituted_chars: "\<forall>c \<in> set (substituted r). in_class lower_word_class c"
  by (simp add: substituted_def lower_word_char)

lemma sanitize_chars:
  assumes "sanitize_table_name r = Inr t"
  shows "\<forall>c \<in> set t. in_class lower_word_class c"
  using assms substituted_chars [of r]
  by (auto simp: sanitize_unfold lower_word_t split: if_splits)

lemma sanitize_nonempty:
  "r \<noteq> [] \<Longrightarrow> \<exists>t. sanitize_table_name r = Inr t \<and> t \<noteq> []"
  by (simp add: sanitize_unfold substituted_def)

text \<open>
  C4. Whenever \<open>sanitize_table_name\<close> succeeds, its result is not empty, consists of
  characters of \<^verbatim>\<open>[a-z0-9_]\<close> only and does not start with a digit: it is the substituted,
  lower-cased name, with \<^verbatim>\<open>t_\<close> in front when that name starts with a digit. In particular
  \<^verbatim>\<open>123abc\<close> becomes \<^verbatim>\<open>t_123abc\<close>.
\<close>

theorem sanitize_charset:
  "(\<forall>t. sanitize_table_name r = Inr t \<longrightarrow>
      (\<forall>c \<in> set t. in_class lower_word_class c) \<and> t \<noteq> [] \<and>
      \<not> (CHR ''0'' \<le> hd t \<and> hd t \<le> CHR ''9'') \<and>
      t = (if isdigit (hd (substituted r)) then ''t_'' @ substituted r else substituted r)) \<and>
   sanitize_table_name ''123abc'' = Inr ''t_123abc''"
proof -
  have main: "(\<forall>c \<in> set t. in_class lower_word_class c) \<and> t \<noteq> [] \<and>
      \<not> (CHR ''0'' \<le> hd t \<and> hd t \<le> CHR ''9'') \<and>
      t = (if isdigit (hd (substituted r)) then ''t_'' @ substituted r else substituted r)"
    if ok: "sanitize_table_name r = Inr t" for t
  proof -
    from ok have ne: "r \<noteq> []"
      and t: "t = (if isdigit (hd (substituted r)) then ''t_'' @ substituted r else substituted r)"
      by (auto simp: sanitize_unfold split: if_splits)
    from ne have sne: "substituted r \<noteq> []"
      by (simp add: substituted_def)
    then have hd_in: "in_class lower_word_class (hd (substituted r))"
      using substituted_chars [of r] by simp
    have nonempty: "t \<noteq> []"
      using t sne by auto
    have no_digit: "\<not> (CHR ''0'' \<le> hd t \<and> hd t \<le> CHR ''9'')"
    proof (cases "isdigit (hd (substituted r))")
      case True
      with t show ?thesis by simp
    next
      case False
      with t hd_in show ?thesis by (simp add: isdigit_lower_word)
    qed
    from sanitize_chars [OF ok] nonempty no_digit t show ?thesis by blast
  qed
  have "sanitize_table_name ''123abc'' = Inr ''t_123abc''"
    by code_simp
  with main show ?thesis by blast
qed

theorem sanitize_charset_witness:
  "sanitize_table_name ''My File-1'' = Inr ''my_file_1'' \<and>
   list_all (in_class lower_word_class) ''my_file_1'' \<and>
   sanitize_table_name ''123abc'' = Inr ''t_123abc''"
proof -
  have h: "sanitize_table_name ''My File-1'' = Inr ''my_file_1''"
    by code_simp
  with sanitize_charset [of "''My File-1''"] show ?thesis
    unfolding list_all_iff by blast
qed

text \<open>
  C7. The substituted, lower-cased form of a raw name is empty exactly when the raw name is
  empty. Then \<open>sanitize_table_name\<close> fails with a \<^verbatim>\<open>ValueError\<close> whose message ends with the
  \<^verbatim>\<open>repr\<close> of the raw name, so the raw name is part of the message. On every other raw name
  it succeeds; the function is pure.
\<close>

theorem sanitize_empty:
  "(substituted r = [] \<longleftrightarrow> r = []) \<and>
   (substituted r = [] \<longrightarrow>
      sanitize_table_name r = Inl (ValueError (''Unable to create table name from: '' @ repr r)) \<and>
      (\<exists>pre post. ''Unable to create table name from: '' @ repr r = pre @ r @ post)) \<and>
   (substituted r \<noteq> [] \<longrightarrow> (\<exists>t. sanitize_table_name r = Inr t))"
  by (auto simp: sanitize_unfold substituted_def)

theorem sanitize_empty_witness:
  "sanitize_table_name '''' =
     Inl (ValueError (''Unable to create table name from: '' @ [CHR 0x27, CHR 0x27])) \<and>
   (\<exists>t. sanitize_table_name ''x'' = Inr t)"
proof -
  have "substituted '''' = []"
    by (simp add: substituted_def)
  moreover have "substituted ''x'' \<noteq> []"
    by (simp add: substituted_def)
  moreover have "repr '''' = [CHR 0x27, CHR 0x27]"
    by (simp add: repr_def Let_def)
  ultimately show ?thesis
    using sanitize_empty [of "''''"] sanitize_empty [of "''x''"] by simp
qed

section \<open>Properties of the translator\<close>

lemma matches_Seq_Lit:
  "matches (Seq (Lit x) r) s = (case s of [] \<Rightarrow> [] | c # cs \<Rightarrow> if c = x then matches r cs else [])"
  by (simp split: list.split)

lemma class_plus_filter:
  assumes "\<And>c cs. in_class cls c \<Longrightarrow> F (c # cs) = []"
  shows "concat (map F (class_plus cls s)) =
           (if takeWhile (in_class cls) s = [] then [] else F (dropWhile (in_class cls) s))"
proof (induction s)
  case Nil
  show ?case by simp
next
  case (Cons c cs)
  show ?case
  proof (cases "in_class cls c")
    case False
    then show ?thesis by simp
  next
    case True
    show ?thesis
    proof (cases cs)
      case Nil
      with True show ?thesis by simp
    next
      case (Cons c' cs')
      with True Cons.IH assms show ?thesis by simp
    qed
  qed
qed

lemma take_takeWhile:
  "take (length s - length (dropWhile P s)) s = takeWhile P s"
proof -
  have "length s - length (dropWhile P s) = length (takeWhile P s)"
    by (metis add_diff_cancel_right' length_append takeWhile_dropWhile_id)
  then show ?thesis
    by (metis append_eq_conv_conj takeWhile_dropWhile_id)
qed

lemma matches_Group_Plus_Seq:
  assumes "\<And>c cs. in_class cls c \<Longrightarrow> matches R (c # cs) = []"
  shows "matches (Seq (Group n (Plus cls)) R) s =
           (if takeWhile (in_class cls) s = [] then []
            else map (\<lambda>(g, rest). ((n, takeWhile (in_class cls) s) # g, rest))
                   (matches R (dropWhile (in_class cls) s)))"
proof -
  let ?F = "\<lambda>rest1. map (\<lambda>(g2, rest2). ((n, take (length s - length rest1) s) # g2, rest2))
                       (matches R rest1)"
  have "matches (Seq (Group n (Plus cls)) R) s = concat (map ?F (class_plus cls s))"
    by (simp add: comp_def)
  also have "\<dots> = (if takeWhile (in_class cls) s = [] then [] else ?F (dropWhile (in_class cls) s))"
    by (rule class_plus_filter) (simp add: assms)
  finally show ?thesis
    by (simp add: take_takeWhile)
qed

lemma word_not_dot: "\<not> in_class word_class CHR ''.''" "\<not> in_class word_class bt"
  "\<not> in_class project_class CHR ''.''" "\<not> in_class project_class bt"
  "\<not> in_class word_class dq" "\<not> in_class project_class dq"
  by (simp_all add: in_class_def word_class_def project_class_def bt_def dq_def)

lemma word_project: "in_class word_class c \<Longrightarrow> in_class project_class c"
  by (auto simp: in_class_def word_class_def project_class_def)

lemma dropWhile_Cons_not_all: "dropWhile P s = c # cs \<Longrightarrow> Ball (set s) P = False"
  by (metis dropWhile_eq_Nil_conv list.distinct(1))

lemma matches_table_bt:
  "matches (Seq (Group ''table'' (Plus word_class)) (Lit bt)) s =
     (case segment word_class bt s of None \<Rightarrow> [] | Some (t, r) \<Rightarrow> [([(''table'', t)], r)])"
proof -
  have "matches (Lit bt) (c # cs) = []" if "in_class word_class c" for c cs
    using that word_not_dot by auto
  then have eq: "matches (Seq (Group ''table'' (Plus word_class)) (Lit bt)) s =
      (if takeWhile (in_class word_class) s = [] then []
       else map (\<lambda>(g, rest). ((''table'', takeWhile (in_class word_class) s) # g, rest))
              (matches (Lit bt) (dropWhile (in_class word_class) s)))"
    by (rule matches_Group_Plus_Seq)
  show ?thesis
    unfolding eq by (auto simp: segment_def dropWhile_Cons_not_all split: list.split)
qed

lemma matches_dataset_table:
  "matches (Seq (Group ''dataset'' (Plus word_class))
      (Seq (Lit CHR ''.'') (Seq (Group ''table'' (Plus word_class)) (Lit bt)))) s =
     (case two_part s of None \<Rightarrow> []
      | Some (d, t, r) \<Rightarrow> [([(''dataset'', d), (''table'', t)], r)])"
proof -
  let ?R = "Seq (Lit CHR ''.'') (Seq (Group ''table'' (Plus word_class)) (Lit bt))"
  have "matches ?R (c # cs) = []" if "in_class word_class c" for c cs
    using that word_not_dot by (auto simp: matches_Seq_Lit)
  then have eq: "matches (Seq (Group ''dataset'' (Plus word_class)) ?R) s =
      (if takeWhile (in_class word_class) s = [] then []
       else map (\<lambda>(g, rest). ((''dataset'', takeWhile (in_class word_class) s) # g, rest))
              (matches ?R (dropWhile (in_class word_class) s)))"
    by (rule matches_Group_Plus_Seq)
  show ?thesis
    unfolding eq matches_Seq_Lit matches_table_bt
    by (auto simp: two_part_def segment_def dropWhile_Cons_not_all split: list.split option.split)
qed

lemma matches_two_part_pattern:
  "matches BIGQUERY_TWO_PART_PATTERN s =
     (case s of [] \<Rightarrow> []
      | c # cs \<Rightarrow> if c = bt then
          (case two_part cs of None \<Rightarrow> []
           | Some (d, t, r) \<Rightarrow> [([(''dataset'', d), (''table'', t)], r)])
        else [])"
  unfolding BIGQUERY_TWO_PART_PATTERN_def
  by (simp only: matches_Seq_Lit matches_dataset_table)

lemma matches_Seq_Opt: "matches (Seq (Opt a) r) s = matches (Seq a r) s @ matches r s"
  by simp

lemma seq_results_assoc:
  "concat (map (\<lambda>(g12, r2). map (\<lambda>(g3, r3). (g12 @ g3, r3)) (matches c r2))
      (concat (map (\<lambda>(g1, r1). map (\<lambda>(g2, r2). (g1 @ g2, r2)) (ys g1 r1)) xs))) =
   concat (map (\<lambda>(g1, r1). map (\<lambda>(g23, r3). (g1 @ g23, r3))
      (concat (map (\<lambda>(g2, r2). map (\<lambda>(g3, r3). (g2 @ g3, r3)) (matches c r2)) (ys g1 r1)))) xs)"
proof (induction xs)
  case Nil
  show ?case by simp
next
  case (Cons x xs)
  obtain g1 r1 where x: "x = (g1, r1)" by (cases x)
  have inner: "concat (map (\<lambda>(g12, r2). map (\<lambda>(g3, r3). (g12 @ g3, r3)) (matches c r2))
        (map (\<lambda>(g2, r2). (g1 @ g2, r2)) zs)) =
      map (\<lambda>(g23, r3). (g1 @ g23, r3))
        (concat (map (\<lambda>(g2, r2). map (\<lambda>(g3, r3). (g2 @ g3, r3)) (matches c r2)) zs))" for zs
    by (induction zs) (auto simp: case_prod_beta)
  show ?case
    using Cons.IH inner [of "ys g1 r1"] by (simp add: x)
qed

lemma matches_Seq_assoc: "matches (Seq (Seq a b) c) s = matches (Seq a (Seq b c)) s"
  using seq_results_assoc [of c "\<lambda>g1 r1. matches b r1" "matches a s"] by simp

lemma matches_project:
  "matches (Seq (Seq (Group ''project'' (Plus project_class)) (Lit CHR ''.''))
      (Seq (Group ''dataset'' (Plus word_class))
        (Seq (Lit CHR ''.'') (Seq (Group ''table'' (Plus word_class)) (Lit bt))))) s =
     (case three_part s of None \<Rightarrow> []
      | Some (p, d, t, r) \<Rightarrow> [([(''project'', p), (''dataset'', d), (''table'', t)], r)])"
proof -
  let ?D = "Seq (Group ''dataset'' (Plus word_class))
        (Seq (Lit CHR ''.'') (Seq (Group ''table'' (Plus word_class)) (Lit bt)))"
  let ?R = "Seq (Lit CHR ''.'') ?D"
  have "matches ?R (c # cs) = []" if "in_class project_class c" for c cs
    using that word_not_dot by (auto simp: matches_Seq_Lit)
  then have eq: "matches (Seq (Group ''project'' (Plus project_class)) ?R) s =
      (if takeWhile (in_class project_class) s = [] then []
       else map (\<lambda>(g, rest). ((''project'', takeWhile (in_class project_class) s) # g, rest))
              (matches ?R (dropWhile (in_class project_class) s)))"
    by (rule matches_Group_Plus_Seq)
  show ?thesis
    unfolding matches_Seq_assoc eq matches_Seq_Lit matches_dataset_table
    by (auto simp: three_part_def segment_def dropWhile_Cons_not_all split: list.split option.split)
qed

lemma matches_table_pattern:
  "matches BIGQUERY_TABLE_PATTERN s =
     (case s of [] \<Rightarrow> []
      | c # cs \<Rightarrow> if c = bt then
          (case three_part cs of None \<Rightarrow> []
           | Some (p, d, t, r) \<Rightarrow> [([(''project'', p), (''dataset'', d), (''table'', t)], r)])
          @ (case two_part cs of None \<Rightarrow> []
             | Some (d, t, r) \<Rightarrow> [([(''dataset'', d), (''table'', t)], r)])
        else [])"
  unfolding BIGQUERY_TABLE_PATTERN_def
  by (simp only: matches_Seq_Lit matches_Seq_Opt matches_project matches_dataset_table)

lemma segment_SomeD:
  assumes "segment cls x s = Some (run, rest)"
  shows "s = run @ x # rest" "run \<noteq> []" "\<forall>c \<in> set run. in_class cls c"
proof -
  from assms have run: "run = takeWhile (in_class cls) s" and ne: "run \<noteq> []"
    and rest: "dropWhile (in_class cls) s = x # rest"
    by (auto simp: segment_def split: if_splits list.splits)
  show "s = run @ x # rest"
    using takeWhile_dropWhile_id [of "in_class cls" s] run rest by simp
  show "run \<noteq> []" by (rule ne)
  show "\<forall>c \<in> set run. in_class cls c"
    using run by (auto dest: set_takeWhileD)
qed

lemma segment_run:
  assumes "run \<noteq> []" "\<forall>c \<in> set run. in_class cls c" "\<not> in_class cls x"
  shows "segment cls x (run @ x # rest) = Some (run, rest)"
    and "x \<noteq> y \<Longrightarrow> segment cls y (run @ x # rest) = None"
proof -
  have tw: "takeWhile (in_class cls) (run @ x # rest) = run"
    using assms by simp
  have dw: "dropWhile (in_class cls) (run @ x # rest) = x # rest"
    using assms by simp
  show "segment cls x (run @ x # rest) = Some (run, rest)"
    unfolding segment_def tw dw using assms(1) by simp
  show "segment cls y (run @ x # rest) = None" if "x \<noteq> y"
    unfolding segment_def tw dw using assms(1) that by simp
qed

lemma two_part_SomeD:
  assumes "two_part s = Some (d, t, r)"
  shows "s = d @ CHR ''.'' # t @ bt # r" "d \<noteq> []" "t \<noteq> []"
    "\<forall>c \<in> set d. in_class word_class c" "\<forall>c \<in> set t. in_class word_class c"
proof -
  from assms obtain r1 where 1: "segment word_class CHR ''.'' s = Some (d, r1)"
    and 2: "segment word_class bt r1 = Some (t, r)"
    by (auto simp: two_part_def split: option.splits)
  from segment_SomeD [OF 1] segment_SomeD [OF 2]
  show "s = d @ CHR ''.'' # t @ bt # r" "d \<noteq> []" "t \<noteq> []"
    "\<forall>c \<in> set d. in_class word_class c" "\<forall>c \<in> set t. in_class word_class c"
    by simp_all
qed

lemma three_part_SomeD:
  assumes "three_part s = Some (p, d, t, r)"
  shows "s = p @ CHR ''.'' # d @ CHR ''.'' # t @ bt # r" "p \<noteq> []" "d \<noteq> []" "t \<noteq> []"
    "\<forall>c \<in> set p. in_class project_class c"
    "\<forall>c \<in> set d. in_class word_class c" "\<forall>c \<in> set t. in_class word_class c"
proof -
  from assms obtain r1 where 1: "segment project_class CHR ''.'' s = Some (p, r1)"
    and 2: "two_part r1 = Some (d, t, r)"
    by (auto simp: three_part_def split: option.splits)
  from segment_SomeD [OF 1] two_part_SomeD [OF 2]
  show "s = p @ CHR ''.'' # d @ CHR ''.'' # t @ bt # r" "p \<noteq> []" "d \<noteq> []" "t \<noteq> []"
    "\<forall>c \<in> set p. in_class project_class c"
    "\<forall>c \<in> set d. in_class word_class c" "\<forall>c \<in> set t. in_class word_class c"
    by simp_all
qed

lemma table_ref_SomeD:
  assumes "table_ref s = Some (d, t, r)"
  shows "length r < length s" "d \<noteq> []" "t \<noteq> []"
    "\<forall>c \<in> set d. in_class word_class c" "\<forall>c \<in> set t. in_class word_class c"
    "bt \<in> set s"
proof -
  from assms consider p where "three_part s = Some (p, d, t, r)" | "two_part s = Some (d, t, r)"
    by (auto simp: table_ref_def split: option.splits)
  then have "length r < length s \<and> d \<noteq> [] \<and> t \<noteq> [] \<and>
    (\<forall>c \<in> set d. in_class word_class c) \<and> (\<forall>c \<in> set t. in_class word_class c) \<and> bt \<in> set s"
  proof cases
    case 1
    from three_part_SomeD [OF 1] show ?thesis by simp
  next
    case 2
    from two_part_SomeD [OF 2] show ?thesis by simp
  qed
  then show "length r < length s" "d \<noteq> []" "t \<noteq> []"
    "\<forall>c \<in> set d. in_class word_class c" "\<forall>c \<in> set t. in_class word_class c"
    "bt \<in> set s"
    by simp_all
qed

lemma two_part_table_ref: "two_part s = Some x \<Longrightarrow> table_ref s \<noteq> None"
  by (cases x) (auto simp: table_ref_def split: option.split)

lemma re_match_table_pattern:
  "re_match BIGQUERY_TABLE_PATTERN s =
     (case s of [] \<Rightarrow> None
      | c # cs \<Rightarrow> if c = bt then
          (case three_part cs of
             Some (p, d, t, r) \<Rightarrow> Some ([(''project'', p), (''dataset'', d), (''table'', t)], r)
           | None \<Rightarrow>
              (case two_part cs of
                 Some (d, t, r) \<Rightarrow> Some ([(''dataset'', d), (''table'', t)], r)
               | None \<Rightarrow> None))
        else None)"
  by (simp add: re_match_def matches_table_pattern split: list.split option.split)

lemma replace_three_part_groups:
  "replace_three_part [(''project'', p), (''dataset'', d), (''table'', t)] = quoted_pair d t"
  "replace_three_part [(''dataset'', d), (''table'', t)] = quoted_pair d t"
  by (simp_all add: replace_three_part_def group_def fmt_def)

lemma replace_two_part_groups:
  "d \<noteq> [] \<Longrightarrow> replace_two_part dd [(''dataset'', d), (''table'', t)] = quoted_pair d t"
  by (simp add: replace_two_part_def group_def fmt_def)

lemma re_match_table_None:
  "c \<noteq> bt \<or> table_ref cs = None \<Longrightarrow> re_match BIGQUERY_TABLE_PATTERN (c # cs) = None"
  by (auto simp: re_match_table_pattern table_ref_def split: option.splits)

lemma re_match_table_Some:
  assumes "table_ref cs = Some (d, t, r)"
  shows "\<exists>m. re_match BIGQUERY_TABLE_PATTERN (bt # cs) = Some (m, r) \<and>
             replace_three_part m = quoted_pair d t"
  using assms
  by (auto simp: re_match_table_pattern table_ref_def replace_three_part_groups
      split: option.splits)

lemma re_match_two_part_pattern:
  "re_match BIGQUERY_TWO_PART_PATTERN s =
     (case s of [] \<Rightarrow> None
      | c # cs \<Rightarrow> if c = bt then
          (case two_part cs of
             Some (d, t, r) \<Rightarrow> Some ([(''dataset'', d), (''table'', t)], r)
           | None \<Rightarrow> None)
        else None)"
  by (simp add: re_match_def matches_two_part_pattern split: list.split option.split)

lemma three_part_pass_Nil: "three_part_pass [] = []"
  by (simp add: three_part_pass_def re_match_table_pattern)

lemma three_part_pass_Cons:
  "three_part_pass (c # cs) =
     (if c = bt then
        (case table_ref cs of
           None \<Rightarrow> c # three_part_pass cs
         | Some (d, t, r) \<Rightarrow> quoted_pair d t @ three_part_pass r)
      else c # three_part_pass cs)"
proof (cases "c = bt \<and> table_ref cs \<noteq> None")
  case False
  then have "re_match BIGQUERY_TABLE_PATTERN (c # cs) = None"
    by (intro re_match_table_None) blast
  moreover from False have "c = bt \<Longrightarrow> table_ref cs = None"
    by blast
  ultimately show ?thesis
    by (cases "c = bt") (simp_all add: three_part_pass_def)
next
  case True
  then obtain d t r where ref: "table_ref cs = Some (d, t, r)"
    by auto
  from re_match_table_Some [OF ref] obtain m
    where m: "re_match BIGQUERY_TABLE_PATTERN (bt # cs) = Some (m, r)"
      and repl: "replace_three_part m = quoted_pair d t"
    by blast
  from table_ref_SomeD(1) [OF ref] have "length r < Suc (length cs)"
    by simp
  with True ref m repl show ?thesis
    by (simp add: three_part_pass_def)
qed

lemma two_part_pass_Nil: "two_part_pass dd [] = []"
  by (simp add: two_part_pass_def re_match_two_part_pattern)

lemma two_part_pass_Cons:
  "two_part_pass dd (c # cs) =
     (if c = bt then
        (case two_part cs of
           None \<Rightarrow> c # two_part_pass dd cs
         | Some (d, t, r) \<Rightarrow> quoted_pair d t @ two_part_pass dd r)
      else c # two_part_pass dd cs)"
proof (cases "c = bt")
  case False
  then show ?thesis
    by (simp add: two_part_pass_def re_match_two_part_pattern)
next
  case True
  show ?thesis
  proof (cases "two_part cs")
    case None
    with True show ?thesis
      by (simp add: two_part_pass_def re_match_two_part_pattern)
  next
    case (Some x)
    obtain d t r where x: "x = (d, t, r)" by (cases x)
    from two_part_SomeD [OF Some [unfolded x]] have "length r < Suc (length cs)" "d \<noteq> []"
      by simp_all
    with True Some x show ?thesis
      by (simp add: two_part_pass_def re_match_two_part_pattern replace_two_part_groups)
  qed
qed

lemma translate_passes:
  "translate_bigquery_sql sql dd = replace bt [dq] (two_part_pass dd (three_part_pass sql))"
  by (simp add: translate_bigquery_sql_def three_part_pass_def two_part_pass_def)

lemma bt_not_dq: "bt \<noteq> dq" "bt \<noteq> CHR ''.''" "dq \<noteq> CHR ''.''"
  by (simp_all add: bt_def dq_def)

lemma word_not_bt: "in_class word_class c \<Longrightarrow> c \<noteq> bt \<and> c \<noteq> dq \<and> c \<noteq> CHR ''.''"
  using word_not_dot by (auto simp: in_class_def word_class_def bt_def dq_def)

lemma project_not_bt: "in_class project_class c \<Longrightarrow> c \<noteq> bt \<and> c \<noteq> dq \<and> c \<noteq> CHR ''.''"
  by (auto simp: in_class_def project_class_def bt_def dq_def)

lemma project_word: "in_class project_class c \<Longrightarrow> c \<noteq> CHR ''-'' \<Longrightarrow> in_class word_class c"
  by (auto simp: in_class_def project_class_def word_class_def)

lemma quoted_pair_no_bt: "bt \<notin> set d \<Longrightarrow> bt \<notin> set t \<Longrightarrow> bt \<notin> set (quoted_pair d t)"
  by (simp add: quoted_pair_def bt_not_dq)

lemma table_ref_no_bt: "bt \<notin> set s \<Longrightarrow> table_ref s = None"
  using table_ref_SomeD(6) by (cases "table_ref s") auto

lemma two_part_no_bt:
  assumes "bt \<notin> set s"
  shows "two_part s = None"
proof (cases "two_part s")
  case None
  then show ?thesis by simp
next
  case (Some x)
  obtain d t r where "x = (d, t, r)" by (cases x)
  with Some two_part_SomeD(1) [of s d t r] assms show ?thesis by auto
qed

lemma three_part_pass_copy: "bt \<notin> set u \<Longrightarrow> three_part_pass (u @ v) = u @ three_part_pass v"
  by (induction u) (auto simp: three_part_pass_Cons)

lemma two_part_pass_copy: "bt \<notin> set u \<Longrightarrow> two_part_pass dd (u @ v) = u @ two_part_pass dd v"
  by (induction u) (auto simp: two_part_pass_Cons)

lemma three_part_pass_id: "bt \<notin> set s \<Longrightarrow> three_part_pass s = s"
  using three_part_pass_copy [of s "[]"] by (simp add: three_part_pass_Nil)

lemma two_part_pass_id: "bt \<notin> set s \<Longrightarrow> two_part_pass dd s = s"
  using two_part_pass_copy [of s dd "[]"] by (simp add: two_part_pass_Nil)

lemma replace_append: "replace old new (u @ v) = replace old new u @ replace old new v"
  by (simp add: replace_def)

lemma replace_id: "old \<notin> set s \<Longrightarrow> replace old new s = s"
  by (induction s) (auto simp: replace_def)

lemma replace_Cons: "replace old new (c # s) = (if c = old then new else [c]) @ replace old new s"
  by (simp add: replace_def)

lemma replace_removes: "old \<notin> set new \<Longrightarrow> old \<notin> set (replace old new s)"
  by (induction s) (auto simp: replace_def)

lemma translate_copy:
  assumes "bt \<notin> set u"
  shows "translate_bigquery_sql (u @ v) dd = u @ translate_bigquery_sql v dd"
  using assms
  by (simp add: translate_passes three_part_pass_copy two_part_pass_copy replace_append replace_id)

lemma two_part_shape:
  assumes "d \<noteq> []" "\<forall>c \<in> set d. in_class word_class c"
    and "t \<noteq> []" "\<forall>c \<in> set t. in_class word_class c"
  shows "two_part (d @ CHR ''.'' # t @ bt # post) = Some (d, t, post)"
  using assms
  by (simp add: two_part_def segment_run(1) word_not_dot)

lemma two_part_one_segment:
  assumes "t \<noteq> []" "\<forall>c \<in> set t. in_class word_class c"
  shows "two_part (t @ bt # post) = None"
  using assms
  by (simp add: two_part_def segment_run(2) word_not_dot bt_not_dq)

lemma three_part_shape:
  assumes "p \<noteq> []" "\<forall>c \<in> set p. in_class project_class c"
    and "d \<noteq> []" "\<forall>c \<in> set d. in_class word_class c"
    and "t \<noteq> []" "\<forall>c \<in> set t. in_class word_class c"
  shows "three_part (p @ CHR ''.'' # d @ CHR ''.'' # t @ bt # post) = Some (p, d, t, post)"
  using assms
  by (simp add: three_part_def segment_run(1) word_not_dot two_part_shape)

lemma three_part_two_segments:
  assumes "p \<noteq> []" "\<forall>c \<in> set p. in_class project_class c"
    and "t \<noteq> []" "\<forall>c \<in> set t. in_class word_class c"
  shows "three_part (p @ CHR ''.'' # t @ bt # post) = None"
  using assms
  by (simp add: three_part_def segment_run(1) word_not_dot two_part_one_segment)

lemma translate_quoted:
  assumes "table_ref s = Some (d, t, r)"
  shows "translate_bigquery_sql (bt # s) dd = quoted_pair d t @ translate_bigquery_sql r dd"
proof -
  from table_ref_SomeD [OF assms] have "bt \<notin> set d" "bt \<notin> set t"
    using word_not_bt by blast+
  then have nb: "bt \<notin> set (quoted_pair d t)"
    by (rule quoted_pair_no_bt)
  have "three_part_pass (bt # s) = quoted_pair d t @ three_part_pass r"
    using assms by (simp add: three_part_pass_Cons)
  then show ?thesis
    using nb by (simp add: translate_passes two_part_pass_copy replace_append replace_id)
qed

text \<open>
  C2. Translating the output of \<open>translate_bigquery_sql\<close> again changes nothing, for every
  input and every default dataset, and the output holds no backtick.
\<close>

theorem translate_idempotent:
  "translate_bigquery_sql (translate_bigquery_sql sql d) d = translate_bigquery_sql sql d \<and>
   bt \<notin> set (translate_bigquery_sql sql d)"
proof -
  have nb: "bt \<notin> set (translate_bigquery_sql sql d)"
    unfolding translate_passes by (rule replace_removes) (simp add: bt_not_dq)
  then have "translate_bigquery_sql (translate_bigquery_sql sql d) d = translate_bigquery_sql sql d"
    using translate_copy [of "translate_bigquery_sql sql d" "[]" d]
    by (simp add: translate_passes three_part_pass_Nil two_part_pass_Nil replace_def)
  with nb show ?thesis by simp
qed

theorem translate_idempotent_witness:
  \<open>translate_bigquery_sql (translate_bigquery_sql ''SELECT `c` FROM `p.d.t`'' ''x'') ''x'' = ''SELECT "c" FROM "d"."t"''\<close>
proof -
  have \<open>translate_bigquery_sql ''SELECT `c` FROM `p.d.t`'' ''x'' = ''SELECT "c" FROM "d"."t"''\<close>
    by code_simp
  with translate_idempotent [of \<open>''SELECT `c` FROM `p.d.t`''\<close> "''x''"] show ?thesis by simp
qed

lemma hyphen_segment_no_two_part:
  assumes "\<forall>c \<in> set a. in_class project_class c" "CHR ''-'' \<in> set a"
  shows "two_part (a @ rest) = None"
proof -
  from split_list_first [OF assms(2)] obtain a1 a2
    where a: "a = a1 @ CHR ''-'' # a2" and first: "CHR ''-'' \<notin> set a1"
    by blast
  have w: "\<forall>c \<in> set a1. in_class word_class c"
    using assms(1) first a project_word by auto
  have nh: "\<not> in_class word_class CHR ''-''"
    by (simp add: in_class_def word_class_def)
  have "segment word_class CHR ''.'' (a1 @ CHR ''-'' # a2 @ rest) = None"
  proof (cases "a1 = []")
    case True
    then show ?thesis by (simp add: segment_def nh)
  next
    case False
    from segment_run(2) [OF False w nh, of "CHR ''.''" "a2 @ rest"] show ?thesis by simp
  qed
  then show ?thesis
    by (simp add: two_part_def a)
qed

lemma two_part_pass_default: "two_part_pass d1 s = two_part_pass d2 s"
proof (induction s rule: length_induct)
  case (1 s)
  show ?case
  proof (cases s)
    case Nil
    then show ?thesis by (simp add: two_part_pass_Nil)
  next
    case (Cons c cs)
    have tail: "two_part_pass d1 cs = two_part_pass d2 cs"
      using 1 Cons by simp
    show ?thesis
    proof (cases "two_part cs")
      case None
      with tail Cons show ?thesis by (simp add: two_part_pass_Cons)
    next
      case (Some x)
      obtain d t r where x: "x = (d, t, r)" by (cases x)
      from two_part_SomeD(1) [OF Some [unfolded x]] have "length r < length s"
        using Cons by simp
      with 1 have "two_part_pass d1 r = two_part_pass d2 r" by simp
      with tail Cons Some x show ?thesis by (simp add: two_part_pass_Cons)
    qed
  qed
qed

lemma three_part_pass_no_ref:
  "c \<noteq> bt \<or> table_ref cs = None \<Longrightarrow> three_part_pass (c # cs) = c # three_part_pass cs"
  by (auto simp: three_part_pass_Cons)

lemma three_part_pass_ref:
  "table_ref cs = Some (d, t, r) \<Longrightarrow> three_part_pass (bt # cs) = quoted_pair d t @ three_part_pass r"
  by (simp add: three_part_pass_Cons)

lemma pass_origin:
  assumes "three_part_pass s = w @ bt # rest" "bt \<notin> set w" "dq \<notin> set w"
  shows "\<exists>s'. s = w @ bt # s'"
  using assms
proof (induction w arbitrary: s)
  case Nil
  then obtain c cs where s: "s = c # cs"
    by (cases s) (auto simp: three_part_pass_Nil)
  show ?case
  proof (cases "c = bt")
    case True
    with s show ?thesis by simp
  next
    case False
    with Nil s show ?thesis by (simp add: three_part_pass_Cons)
  qed
next
  case (Cons x w)
  then obtain c cs where s: "s = c # cs"
    by (cases s) (auto simp: three_part_pass_Nil)
  have x: "x \<noteq> bt" "x \<noteq> dq" using Cons.prems by auto
  have copied: "three_part_pass s = c # three_part_pass cs"
  proof (cases "c = bt \<and> table_ref cs \<noteq> None")
    case False
    then have "c \<noteq> bt \<or> table_ref cs = None" by blast
    then show ?thesis
      unfolding s by (rule three_part_pass_no_ref)
  next
    case True
    then obtain d t r where "table_ref cs = Some (d, t, r)" by auto
    with True have "three_part_pass s = quoted_pair d t @ three_part_pass r"
      by (simp add: s three_part_pass_ref)
    with Cons.prems(1) x show ?thesis
      by (simp add: quoted_pair_def)
  qed
  with Cons.prems(1) have c: "c = x" and "three_part_pass cs = w @ bt # rest"
    by simp_all
  from Cons.IH [OF this(2)] Cons.prems obtain s' where "cs = w @ bt # s'"
    by auto
  with s c show ?case by simp
qed

lemma two_part_after_pass:
  assumes "two_part (three_part_pass cs) = Some (d, t, r)"
  shows "two_part cs \<noteq> None"
proof -
  from two_part_SomeD [OF assms]
  have out: "three_part_pass cs = (d @ CHR ''.'' # t) @ bt # r"
    and d: "d \<noteq> []" "\<forall>c \<in> set d. in_class word_class c"
    and t: "t \<noteq> []" "\<forall>c \<in> set t. in_class word_class c"
    by simp_all
  have "bt \<notin> set (d @ CHR ''.'' # t)" "dq \<notin> set (d @ CHR ''.'' # t)"
    using d t word_not_bt bt_not_dq by auto
  from pass_origin [OF out this] obtain s' where "cs = d @ CHR ''.'' # t @ bt # s'"
    by auto
  with two_part_shape [OF d t, of s'] show ?thesis by simp
qed

lemma two_part_pass_after: "two_part_pass dd (three_part_pass s) = three_part_pass s"
proof (induction s rule: length_induct)
  case (1 s)
  show ?case
  proof (cases s)
    case Nil
    then show ?thesis by (simp add: three_part_pass_Nil two_part_pass_Nil)
  next
    case (Cons c cs)
    have tail: "two_part_pass dd (three_part_pass cs) = three_part_pass cs"
      using 1 Cons by simp
    show ?thesis
    proof (cases "c = bt \<and> table_ref cs \<noteq> None")
      case True
      then obtain d t r where ref: "table_ref cs = Some (d, t, r)" by auto
      from table_ref_SomeD [OF ref] have len: "length r < length s"
        and "bt \<notin> set d" "bt \<notin> set t"
        using Cons word_not_bt by auto
      then have nb: "bt \<notin> set (quoted_pair d t)"
        by (simp add: quoted_pair_no_bt)
      from 1 len have "two_part_pass dd (three_part_pass r) = three_part_pass r" by simp
      with True ref nb Cons show ?thesis
        by (simp add: three_part_pass_ref two_part_pass_copy)
    next
      case False
      then have "c \<noteq> bt \<or> table_ref cs = None" by blast
      then have out: "three_part_pass s = c # three_part_pass cs"
        unfolding Cons by (rule three_part_pass_no_ref)
      show ?thesis
      proof (cases "c = bt")
        case neq: False
        with out tail show ?thesis by (simp add: two_part_pass_Cons)
      next
        case eq: True
        with False have none: "table_ref cs = None" by blast
        have "two_part (three_part_pass cs) = None"
        proof (rule ccontr)
          assume "two_part (three_part_pass cs) \<noteq> None"
          then obtain d t r where "two_part (three_part_pass cs) = Some (d, t, r)" by auto
          from two_part_after_pass [OF this] obtain y where "two_part cs = Some y" by auto
          from two_part_table_ref [OF this] none show False by simp
        qed
        with out tail show ?thesis by (simp add: two_part_pass_Cons)
      qed
    qed
  qed
qed

text \<open>
  C9. The output of \<open>translate_bigquery_sql\<close> is the same for any two default datasets. The
  second pass changes nothing in the output of the first; and wherever the two-part pattern
  matches, the table pattern matches as well, the group \<^verbatim>\<open>dataset\<close> took part with a text that
  is not empty, and the replacement does not depend on the default dataset.
\<close>

theorem translate_ignores_default:
  "translate_bigquery_sql sql d1 = translate_bigquery_sql sql d2 \<and>
   re_sub BIGQUERY_TWO_PART_PATTERN (replace_two_part d1)
     (re_sub BIGQUERY_TABLE_PATTERN replace_three_part sql) =
     re_sub BIGQUERY_TABLE_PATTERN replace_three_part sql \<and>
   (\<forall>s m rest. re_match BIGQUERY_TWO_PART_PATTERN s = Some (m, rest) \<longrightarrow>
      re_match BIGQUERY_TABLE_PATTERN s \<noteq> None \<and>
      (\<exists>ds. group m ''dataset'' = Some ds \<and> ds \<noteq> []) \<and>
      replace_two_part d1 m = replace_two_part d2 m)"
proof -
  have 1: "translate_bigquery_sql sql d1 = translate_bigquery_sql sql d2"
    by (simp add: translate_passes two_part_pass_default [of d1 _ d2])
  have 2: "re_sub BIGQUERY_TWO_PART_PATTERN (replace_two_part d1)
     (re_sub BIGQUERY_TABLE_PATTERN replace_three_part sql) =
     re_sub BIGQUERY_TABLE_PATTERN replace_three_part sql"
    using two_part_pass_after [of d1 sql] by (simp add: two_part_pass_def three_part_pass_def)
  have 3: "re_match BIGQUERY_TABLE_PATTERN s \<noteq> None \<and>
      (\<exists>ds. group m ''dataset'' = Some ds \<and> ds \<noteq> []) \<and>
      replace_two_part d1 m = replace_two_part d2 m"
    if "re_match BIGQUERY_TWO_PART_PATTERN s = Some (m, rest)" for s m rest
  proof -
    from that obtain cs d t where s: "s = bt # cs" and tp: "two_part cs = Some (d, t, rest)"
      and m: "m = [(''dataset'', d), (''table'', t)]"
      by (auto simp: re_match_two_part_pattern split: list.splits if_splits option.splits)
    from two_part_SomeD [OF tp] have dne: "d \<noteq> []" by simp
    have "re_match BIGQUERY_TABLE_PATTERN s \<noteq> None"
      using tp by (auto simp: s re_match_table_pattern split: option.splits)
    moreover have "group m ''dataset'' = Some d"
      by (simp add: m group_def)
    moreover have "replace_two_part d1 m = replace_two_part d2 m"
      using dne by (simp add: m replace_two_part_groups)
    ultimately show ?thesis using dne by simp
  qed
  from 1 2 3 show ?thesis by blast
qed

theorem translate_ignores_default_witness:
  \<open>translate_bigquery_sql ''SELECT * FROM `ds.tbl`'' ''one'' = translate_bigquery_sql ''SELECT * FROM `ds.tbl`'' ''two'' \<and>
   re_match BIGQUERY_TABLE_PATTERN ''`ds.tbl`'' \<noteq> None \<and>
   group [(''dataset'', ''ds''), (''table'', ''tbl'')] ''dataset'' = Some ''ds''\<close>
proof -
  have m: \<open>re_match BIGQUERY_TWO_PART_PATTERN ''`ds.tbl`'' = Some ([(''dataset'', ''ds''), (''table'', ''tbl'')], [])\<close>
    by code_simp
  note T = translate_ignores_default [of \<open>''SELECT * FROM `ds.tbl`''\<close> "''one''" "''two''"]
  from T [THEN conjunct2, THEN conjunct2, rule_format, OF m] T [THEN conjunct1]
  show ?thesis by (simp add: group_def)
qed

section \<open>Table references in their context\<close>

lemma segment_extend:
  assumes "c \<in> set s" "\<not> in_class cls c"
  shows "segment cls x (s @ y) = map_option (\<lambda>(run, rest). (run, rest @ y)) (segment cls x s)"
proof -
  have tw: "takeWhile (in_class cls) (s @ y) = takeWhile (in_class cls) s"
    using assms by (rule takeWhile_append1)
  have dw: "dropWhile (in_class cls) (s @ y) = dropWhile (in_class cls) s @ y"
    using assms by (rule dropWhile_append1)
  have "dropWhile (in_class cls) s \<noteq> []"
    using assms by (auto simp: dropWhile_eq_Nil_conv)
  then obtain z zs where "dropWhile (in_class cls) s = z # zs"
    by (cases "dropWhile (in_class cls) s") auto
  then show ?thesis
    by (simp add: segment_def tw dw)
qed

lemma two_part_extend:
  assumes "bt \<in> set s"
  shows "two_part (s @ y) = map_option (\<lambda>(d, t, r). (d, t, r @ y)) (two_part s)"
proof -
  have 1: "segment word_class CHR ''.'' (s @ y) =
      map_option (\<lambda>(run, rest). (run, rest @ y)) (segment word_class CHR ''.'' s)"
    using assms word_not_dot(2) by (rule segment_extend)
  show ?thesis
  proof (cases "segment word_class CHR ''.'' s")
    case None
    with 1 show ?thesis by (simp add: two_part_def)
  next
    case (Some x)
    obtain d r where x: "x = (d, r)" by (cases x)
    from segment_SomeD [OF Some [unfolded x]] have s: "s = d @ CHR ''.'' # r"
      and d: "\<forall>c \<in> set d. in_class word_class c"
      by simp_all
    have "bt \<in> set r"
      using assms s d word_not_bt bt_not_dq by auto
    then have 2: "segment word_class bt (r @ y) =
        map_option (\<lambda>(run, rest). (run, rest @ y)) (segment word_class bt r)"
      using word_not_dot(2) by (rule segment_extend)
    show ?thesis
      using 1 2 Some x by (cases "segment word_class bt r") (auto simp: two_part_def)
  qed
qed

lemma three_part_extend:
  assumes "bt \<in> set s"
  shows "three_part (s @ y) = map_option (\<lambda>(p, d, t, r). (p, d, t, r @ y)) (three_part s)"
proof -
  have 1: "segment project_class CHR ''.'' (s @ y) =
      map_option (\<lambda>(run, rest). (run, rest @ y)) (segment project_class CHR ''.'' s)"
    using assms word_not_dot(4) by (rule segment_extend)
  show ?thesis
  proof (cases "segment project_class CHR ''.'' s")
    case None
    with 1 show ?thesis by (simp add: three_part_def)
  next
    case (Some x)
    obtain p r where x: "x = (p, r)" by (cases x)
    from segment_SomeD [OF Some [unfolded x]] have s: "s = p @ CHR ''.'' # r"
      and p: "\<forall>c \<in> set p. in_class project_class c"
      by simp_all
    have "bt \<in> set r"
      using assms s p project_not_bt bt_not_dq by auto
    from two_part_extend [OF this, of y] show ?thesis
      using 1 Some x by (cases "two_part r") (auto simp: three_part_def)
  qed
qed

lemma table_ref_extend:
  assumes "bt \<in> set s"
  shows "table_ref (s @ y) = map_option (\<lambda>(d, t, r). (d, t, r @ y)) (table_ref s)"
  using two_part_extend [OF assms, of y] three_part_extend [OF assms, of y]
  by (cases "three_part s"; cases "two_part s") (auto simp: table_ref_def)

lemma table_ref_split:
  assumes "table_ref s = Some (d, t, r)"
  shows "\<exists>m. s = m @ bt # r"
proof -
  from assms consider p where "three_part s = Some (p, d, t, r)" | "two_part s = Some (d, t, r)"
    by (auto simp: table_ref_def split: option.splits)
  then show ?thesis
  proof cases
    case 1
    from three_part_SomeD(1) [OF 1] have "s = (p @ CHR ''.'' # d @ CHR ''.'' # t) @ bt # r"
      by simp
    then show ?thesis ..
  next
    case 2
    from two_part_SomeD(1) [OF 2] have "s = (d @ CHR ''.'' # t) @ bt # r"
      by simp
    then show ?thesis ..
  qed
qed

lemma table_ref_straddle:
  assumes "table_ref cs = None" "table_ref (cs @ [bt]) = Some (d, t, r)"
  shows "r = []" "table_ref (cs @ bt # y) = Some (d, t, y)"
proof -
  have nb: "bt \<notin> set cs"
  proof
    assume "bt \<in> set cs"
    from table_ref_extend [OF this, of "[bt]"] assms show False by simp
  qed
  from table_ref_split [OF assms(2)] obtain m where m: "cs @ [bt] = m @ bt # r"
    by blast
  show r: "r = []"
  proof (rule ccontr)
    assume "r \<noteq> []"
    then have "last (m @ bt # r) = last r" by simp
    with m have "last r = bt" by (metis last_snoc)
    with \<open>r \<noteq> []\<close> obtain r' where "r = r' @ [bt]"
      by (metis append_butlast_last_id)
    with m have "cs = m @ bt # r'" by simp
    with nb show False by simp
  qed
  have "bt \<in> set (cs @ [bt])" by simp
  from table_ref_extend [OF this, of y] assms(2) r show "table_ref (cs @ bt # y) = Some (d, t, y)"
    by simp
qed

lemma table_ref_closed_None:
  assumes "table_ref (cs @ [bt]) = None"
  shows "table_ref (cs @ bt # y) = None" "table_ref cs = None"
proof -
  have "bt \<in> set (cs @ [bt])" by simp
  from table_ref_extend [OF this, of y] assms show "table_ref (cs @ bt # y) = None"
    by simp
  show "table_ref cs = None"
  proof (cases "bt \<in> set cs")
    case True
    from table_ref_extend [OF this, of "[bt]"] assms show ?thesis by simp
  next
    case False
    then show ?thesis by (rule table_ref_no_bt)
  qed
qed

lemma arrives_split:
  "arrives pre \<Longrightarrow> three_part_pass (pre @ bt # y) = three_part_pass pre @ three_part_pass (bt # y)"
proof (induction pre rule: arrives.induct)
  case 1
  show ?case by (simp add: three_part_pass_Nil)
next
  case (2 c cs)
  show ?case
  proof (cases "c = bt")
    case False
    with 2 show ?thesis by (simp add: three_part_pass_no_ref)
  next
    case True
    show ?thesis
    proof (cases "table_ref cs")
      case None
      with True "2.prems" have closed: "table_ref (cs @ [bt]) = None" and a: "arrives cs"
        by simp_all
      from "2.IH"(1) [OF True None a]
      have "three_part_pass (cs @ bt # y) = three_part_pass cs @ three_part_pass (bt # y)" .
      with True None table_ref_closed_None(1) [OF closed, of y] show ?thesis
        by (simp add: three_part_pass_no_ref)
    next
      case (Some x)
      obtain d t r where x: "x = (d, t, r)" by (cases x)
      from True Some x "2.prems" have a: "arrives r" by simp
      from "2.IH"(2) [OF True Some [unfolded x] refl refl a]
      have ih: "three_part_pass (r @ bt # y) = three_part_pass r @ three_part_pass (bt # y)" .
      have "bt \<in> set cs"
        using table_ref_SomeD(6) [OF Some [unfolded x]] .
      from table_ref_extend [OF this, of "bt # y"] Some x
      have "table_ref (cs @ bt # y) = Some (d, t, r @ bt # y)" by simp
      with True Some x ih show ?thesis
        by (simp add: three_part_pass_ref)
    qed
  qed
qed


lemma not_arrives_split:
  "\<not> arrives pre \<Longrightarrow> three_part_pass (pre @ bt # y) = three_part_pass (pre @ [bt]) @ three_part_pass y"
proof (induction pre rule: arrives.induct)
  case 1
  then show ?case by simp
next
  case (2 c cs)
  show ?case
  proof (cases "c = bt")
    case False
    with 2 show ?thesis by (simp add: three_part_pass_no_ref)
  next
    case True
    show ?thesis
    proof (cases "table_ref cs")
      case None
      show ?thesis
      proof (cases "table_ref (cs @ [bt])")
        case closed: None
        with True None "2.prems" have a: "\<not> arrives cs" by simp
        from "2.IH"(1) [OF True None a]
        have "three_part_pass (cs @ bt # y) = three_part_pass (cs @ [bt]) @ three_part_pass y" .
        with True closed table_ref_closed_None(1) [OF closed, of y] show ?thesis
          by (simp add: three_part_pass_no_ref)
      next
        case (Some x)
        obtain d t r where x: "x = (d, t, r)" by (cases x)
        from table_ref_straddle [OF None Some [unfolded x]]
        have r: "r = []" and ext: "table_ref (cs @ bt # y) = Some (d, t, y)"
          by simp_all
        from True Some x r ext show ?thesis
          by (simp add: three_part_pass_ref three_part_pass_Nil)
      qed
    next
      case (Some x)
      obtain d t r where x: "x = (d, t, r)" by (cases x)
      from True Some x "2.prems" have a: "\<not> arrives r" by simp
      from "2.IH"(2) [OF True Some [unfolded x] refl refl a]
      have ih: "three_part_pass (r @ bt # y) = three_part_pass (r @ [bt]) @ three_part_pass y" .
      have mem: "bt \<in> set cs"
        using table_ref_SomeD(6) [OF Some [unfolded x]] .
      from table_ref_extend [OF mem, of "bt # y"] Some x
      have 1: "table_ref (cs @ bt # y) = Some (d, t, r @ bt # y)" by simp
      from table_ref_extend [OF mem, of "[bt]"] Some x
      have 2: "table_ref (cs @ [bt]) = Some (d, t, r @ [bt])" by simp
      from True 1 2 ih show ?thesis
        by (simp add: three_part_pass_ref)
    qed
  qed
qed

lemma translate_first_pass:
  "translate_bigquery_sql sql dd = replace bt [dq] (three_part_pass sql)"
  by (simp add: translate_passes two_part_pass_after)

lemma translate_arrives:
  assumes "arrives pre"
  shows "translate_bigquery_sql (pre @ bt # y) dd =
           translate_bigquery_sql pre dd @ translate_bigquery_sql (bt # y) dd"
  by (simp add: translate_first_pass arrives_split [OF assms, of y] replace_append)

lemma translate_not_arrives:
  assumes "\<not> arrives pre"
  shows "translate_bigquery_sql (pre @ bt # y) dd =
           translate_bigquery_sql (pre @ [bt]) dd @ translate_bigquery_sql y dd"
  by (simp add: translate_first_pass not_arrives_split [OF assms, of y] replace_append)

lemma translate_no_ref:
  assumes "table_ref y = None"
  shows "translate_bigquery_sql (pre @ bt # y) dd =
           translate_bigquery_sql (pre @ [bt]) dd @ translate_bigquery_sql y dd"
proof (cases "arrives pre")
  case False
  then show ?thesis by (rule translate_not_arrives)
next
  case True
  have 1: "translate_bigquery_sql (bt # y) dd = dq # translate_bigquery_sql y dd"
    using assms by (simp add: translate_first_pass three_part_pass_no_ref replace_Cons)
  have 2: "translate_bigquery_sql [bt] dd = [dq]"
    by (simp add: translate_first_pass three_part_pass_no_ref table_ref_no_bt three_part_pass_Nil
        replace_def)
  from translate_arrives [OF True, of y dd] translate_arrives [OF True, of "[]" dd] 1 2
  show ?thesis by simp
qed

lemma arrives_no_bt: "bt \<notin> set pre \<Longrightarrow> arrives pre"
  by (induction pre) auto

lemma three_part_pass_closing:
  "\<exists>u. three_part_pass (s @ [bt]) = u @ [bt] \<or> three_part_pass (s @ [bt]) = u @ [dq]"
proof (induction s rule: length_induct)
  case (1 s)
  show ?case
  proof (cases s)
    case Nil
    have "three_part_pass [bt] = [] @ [bt]"
      by (simp add: three_part_pass_no_ref table_ref_no_bt three_part_pass_Nil)
    with Nil show ?thesis by auto
  next
    case (Cons c cs)
    show ?thesis
    proof (cases "c = bt \<and> table_ref (cs @ [bt]) \<noteq> None")
      case False
      then have "c \<noteq> bt \<or> table_ref (cs @ [bt]) = None" by blast
      then have out: "three_part_pass (s @ [bt]) = c # three_part_pass (cs @ [bt])"
        unfolding Cons by (simp add: three_part_pass_no_ref)
      from 1 Cons obtain u where "three_part_pass (cs @ [bt]) = u @ [bt] \<or>
          three_part_pass (cs @ [bt]) = u @ [dq]"
        by auto
      with out show ?thesis
        by (intro exI [of _ "c # u"]) auto
    next
      case True
      then obtain d t r where ref: "table_ref (cs @ [bt]) = Some (d, t, r)" by auto
      with True have out: "three_part_pass (s @ [bt]) = quoted_pair d t @ three_part_pass r"
        by (simp add: Cons three_part_pass_ref)
      show ?thesis
      proof (cases "r = []")
        case True
        with out have "three_part_pass (s @ [bt]) = ([dq] @ d @ [dq, CHR ''.'', dq] @ t) @ [dq]"
          by (simp add: quoted_pair_def three_part_pass_Nil)
        then show ?thesis by blast
      next
        case False
        from table_ref_split [OF ref] obtain m where m: "cs @ [bt] = m @ bt # r" by blast
        from False have "last (m @ bt # r) = last r" by simp
        with m have "last r = bt" by (metis last_snoc)
        with False obtain r' where r': "r = r' @ [bt]"
          by (metis append_butlast_last_id)
        from table_ref_SomeD(1) [OF ref] r' have "length r' < length s"
          by (simp add: Cons)
        with 1 obtain u where "three_part_pass (r' @ [bt]) = u @ [bt] \<or>
            three_part_pass (r' @ [bt]) = u @ [dq]"
          by auto
        with out r' show ?thesis
          by (intro exI [of _ "quoted_pair d t @ u"]) auto
      qed
    qed
  qed
qed

lemma translate_closing: "\<exists>u. translate_bigquery_sql (s @ [bt]) dd = u @ [dq]"
proof -
  from three_part_pass_closing [of s] obtain u
    where "three_part_pass (s @ [bt]) = u @ [bt] \<or> three_part_pass (s @ [bt]) = u @ [dq]"
    by blast
  then have "translate_bigquery_sql (s @ [bt]) dd = replace bt [dq] u @ [dq]"
    by (auto simp: translate_first_pass replace_append replace_def bt_not_dq)
  then show ?thesis ..
qed

lemma translate_opening: "\<exists>v. translate_bigquery_sql (bt # s) dd = dq # v"
proof (cases "table_ref s")
  case None
  then have "translate_bigquery_sql (bt # s) dd = dq # translate_bigquery_sql s dd"
    by (simp add: translate_first_pass three_part_pass_no_ref replace_Cons)
  then show ?thesis ..
next
  case (Some x)
  obtain d t r where "x = (d, t, r)" by (cases x)
  with Some have "translate_bigquery_sql (bt # s) dd =
      dq # d @ [dq, CHR ''.'', dq] @ t @ [dq] @ translate_bigquery_sql r dd"
    using translate_quoted [of s d t r dd] by (simp add: quoted_pair_def)
  then show ?thesis ..
qed

lemma translate_Nil: "translate_bigquery_sql [] dd = []"
  by (simp add: translate_first_pass three_part_pass_Nil replace_def)

lemma translate_no_bt: "bt \<notin> set s \<Longrightarrow> translate_bigquery_sql s dd = s"
  using translate_copy [of s "[]" dd] by (simp add: translate_Nil)

lemma re_match_table_ref: "(re_match BIGQUERY_TABLE_PATTERN (bt # s) = None) = (table_ref s = None)"
proof (cases "table_ref s")
  case None
  then show ?thesis by (simp add: re_match_table_None)
next
  case (Some x)
  obtain d t r where "x = (d, t, r)" by (cases x)
  with Some re_match_table_Some [of s d t r] show ?thesis by auto
qed

lemma word_run_no_bt: "\<forall>c \<in> set d. in_class word_class c \<Longrightarrow> bt \<notin> set d"
  using word_not_bt by blast

lemma project_run_no_bt: "\<forall>c \<in> set p. in_class project_class c \<Longrightarrow> bt \<notin> set p"
  using project_not_bt by blast

text \<open>
  C1, for a reference the scan comes to. Let the project segment be of \<^verbatim>\<open>[A-Za-z0-9_-]\<close> and the
  dataset and table segments of \<^verbatim>\<open>[A-Za-z0-9_]\<close>, none of them empty. When the scan arrives at the
  opening backtick of a backtick-quoted reference of three or of two segments, the reference
  becomes the quoted dataset, a dot and the quoted table (the project is dropped), and the
  texts before and after it are translated on their own. When the scan does not arrive there,
  because an earlier match ends in that backtick, the segments are copied as they are. A text
  before the reference that holds no backtick is arrived at and copied. The two examples of the
  specification are instances.
\<close>

theorem translate_table_reference:
  assumes "p \<noteq> []" "\<forall>c \<in> set p. in_class project_class c"
    and "d \<noteq> []" "\<forall>c \<in> set d. in_class word_class c"
    and "t \<noteq> []" "\<forall>c \<in> set t. in_class word_class c"
  shows \<open>(arrives pre \<longrightarrow>
           translate_bigquery_sql (pre @ [bt] @ p @ ''.'' @ d @ ''.'' @ t @ [bt] @ post) dd =
             translate_bigquery_sql pre dd @ [dq] @ d @ [dq] @ ''.'' @ [dq] @ t @ [dq]
               @ translate_bigquery_sql post dd \<and>
           translate_bigquery_sql (pre @ [bt] @ d @ ''.'' @ t @ [bt] @ post) dd =
             translate_bigquery_sql pre dd @ [dq] @ d @ [dq] @ ''.'' @ [dq] @ t @ [dq]
               @ translate_bigquery_sql post dd) \<and>
         (\<not> arrives pre \<longrightarrow>
           translate_bigquery_sql (pre @ [bt] @ p @ ''.'' @ d @ ''.'' @ t @ [bt] @ post) dd =
             translate_bigquery_sql (pre @ [bt]) dd @ p @ ''.'' @ d @ ''.'' @ t
               @ translate_bigquery_sql ([bt] @ post) dd \<and>
           translate_bigquery_sql (pre @ [bt] @ d @ ''.'' @ t @ [bt] @ post) dd =
             translate_bigquery_sql (pre @ [bt]) dd @ d @ ''.'' @ t
               @ translate_bigquery_sql ([bt] @ post) dd) \<and>
         (bt \<notin> set pre \<longrightarrow> arrives pre \<and> translate_bigquery_sql pre dd = pre) \<and>
         translate_bigquery_sql ''SELECT * FROM `proj.ds.tbl`'' ''default'' = ''SELECT * FROM "ds"."tbl"'' \<and>
         translate_bigquery_sql ''SELECT * FROM `ds.tbl`'' ''default'' = ''SELECT * FROM "ds"."tbl"''\<close>
proof -
  let ?three = "p @ CHR ''.'' # d @ CHR ''.'' # t"
  let ?two = "d @ CHR ''.'' # t"
  have three: "table_ref (?three @ bt # post) = Some (d, t, post)"
    using assms by (simp add: table_ref_def three_part_shape)
  have dp: "\<forall>c \<in> set d. in_class project_class c"
    using assms(4) word_project by blast
  have two: "table_ref (?two @ bt # post) = Some (d, t, post)"
    using assms dp by (simp add: table_ref_def three_part_two_segments two_part_shape)
  have q3: "translate_bigquery_sql (bt # ?three @ bt # post) dd =
      quoted_pair d t @ translate_bigquery_sql post dd"
    using translate_quoted [OF three, of dd] by simp
  have q2: "translate_bigquery_sql (bt # ?two @ bt # post) dd =
      quoted_pair d t @ translate_bigquery_sql post dd"
    using translate_quoted [OF two, of dd] by simp
  have nb3: "bt \<notin> set ?three"
    using project_run_no_bt [OF assms(2)] word_run_no_bt [OF assms(4)] word_run_no_bt [OF assms(6)]
    by (simp add: bt_not_dq)
  have nb2: "bt \<notin> set ?two"
    using word_run_no_bt [OF assms(4)] word_run_no_bt [OF assms(6)]
    by (simp add: bt_not_dq)
  have c3: "translate_bigquery_sql (?three @ bt # post) dd =
      ?three @ translate_bigquery_sql (bt # post) dd"
    using nb3 by (rule translate_copy)
  have c2: "translate_bigquery_sql (?two @ bt # post) dd =
      ?two @ translate_bigquery_sql (bt # post) dd"
    using nb2 by (rule translate_copy)
  have yes: "translate_bigquery_sql (pre @ [bt] @ p @ ''.'' @ d @ ''.'' @ t @ [bt] @ post) dd =
             translate_bigquery_sql pre dd @ [dq] @ d @ [dq] @ ''.'' @ [dq] @ t @ [dq]
               @ translate_bigquery_sql post dd \<and>
           translate_bigquery_sql (pre @ [bt] @ d @ ''.'' @ t @ [bt] @ post) dd =
             translate_bigquery_sql pre dd @ [dq] @ d @ [dq] @ ''.'' @ [dq] @ t @ [dq]
               @ translate_bigquery_sql post dd"
    if a: "arrives pre"
    using translate_arrives [OF a, of "?three @ bt # post" dd]
      translate_arrives [OF a, of "?two @ bt # post" dd] q3 q2
    by (simp add: quoted_pair_def)
  have no: "translate_bigquery_sql (pre @ [bt] @ p @ ''.'' @ d @ ''.'' @ t @ [bt] @ post) dd =
             translate_bigquery_sql (pre @ [bt]) dd @ p @ ''.'' @ d @ ''.'' @ t
               @ translate_bigquery_sql ([bt] @ post) dd \<and>
           translate_bigquery_sql (pre @ [bt] @ d @ ''.'' @ t @ [bt] @ post) dd =
             translate_bigquery_sql (pre @ [bt]) dd @ d @ ''.'' @ t
               @ translate_bigquery_sql ([bt] @ post) dd"
    if a: "\<not> arrives pre"
    using translate_not_arrives [OF a, of "?three @ bt # post" dd]
      translate_not_arrives [OF a, of "?two @ bt # post" dd] c3 c2
    by simp
  have plain: "arrives pre \<and> translate_bigquery_sql pre dd = pre" if "bt \<notin> set pre"
    using that by (simp add: arrives_no_bt translate_no_bt)
  have e1: \<open>translate_bigquery_sql ''SELECT * FROM `proj.ds.tbl`'' ''default'' = ''SELECT * FROM "ds"."tbl"''\<close>
    by code_simp
  have e2: \<open>translate_bigquery_sql ''SELECT * FROM `ds.tbl`'' ''default'' = ''SELECT * FROM "ds"."tbl"''\<close>
    by code_simp
  from yes no plain e1 e2 show ?thesis by blast
qed

theorem translate_table_reference_witness:
  \<open>translate_bigquery_sql
      (''SELECT `c` FROM '' @ [bt] @ ''my-proj'' @ ''.'' @ ''ds'' @ ''.'' @ ''tbl'' @ [bt] @ '' x JOIN `e.f`'')
      ''default'' =
     ''SELECT "c" FROM '' @ [dq] @ ''ds'' @ [dq] @ ''.'' @ [dq] @ ''tbl'' @ [dq] @ '' x JOIN "e"."f"'' \<and>
   translate_bigquery_sql
      (''`x`a.b'' @ [bt] @ ''my-proj'' @ ''.'' @ ''ds'' @ ''.'' @ ''tbl'' @ [bt] @ '' x'')
      ''default'' =
     ''"x"a"."b"'' @ ''my-proj'' @ ''.'' @ ''ds'' @ ''.'' @ ''tbl'' @ ''" x''\<close>
proof -
  have p: "''my-proj'' \<noteq> []" "\<forall>c \<in> set ''my-proj''. in_class project_class c"
    by (simp_all add: in_class_def project_class_def)
  have d: "''ds'' \<noteq> []" "\<forall>c \<in> set ''ds''. in_class word_class c"
    by (simp_all add: in_class_def word_class_def)
  have t: "''tbl'' \<noteq> []" "\<forall>c \<in> set ''tbl''. in_class word_class c"
    by (simp_all add: in_class_def word_class_def)
  have a: \<open>arrives ''SELECT `c` FROM ''\<close>
    by code_simp
  have pre: \<open>translate_bigquery_sql ''SELECT `c` FROM '' ''default'' = ''SELECT "c" FROM ''\<close>
    by code_simp
  have post: \<open>translate_bigquery_sql '' x JOIN `e.f`'' ''default'' = '' x JOIN "e"."f"''\<close>
    by code_simp
  have na: \<open>\<not> arrives ''`x`a.b''\<close>
    by code_simp
  have pre': \<open>translate_bigquery_sql (''`x`a.b'' @ [bt]) ''default'' = ''"x"a"."b"''\<close>
    by code_simp
  have post': \<open>translate_bigquery_sql ([bt] @ '' x'') ''default'' = ''" x''\<close>
    by code_simp
  from translate_table_reference [OF p d t, of \<open>''SELECT `c` FROM ''\<close> \<open>'' x JOIN `e.f`''\<close> "''default''"]
    a pre post
  have 1: \<open>translate_bigquery_sql
      (''SELECT `c` FROM '' @ [bt] @ ''my-proj'' @ ''.'' @ ''ds'' @ ''.'' @ ''tbl'' @ [bt] @ '' x JOIN `e.f`'')
      ''default'' =
     ''SELECT "c" FROM '' @ [dq] @ ''ds'' @ [dq] @ ''.'' @ [dq] @ ''tbl'' @ [dq] @ '' x JOIN "e"."f"''\<close>
    by simp
  from translate_table_reference [OF p d t, of \<open>''`x`a.b''\<close> "'' x''" "''default''"]
    na pre' post'
  have 2: \<open>translate_bigquery_sql
      (''`x`a.b'' @ [bt] @ ''my-proj'' @ ''.'' @ ''ds'' @ ''.'' @ ''tbl'' @ [bt] @ '' x'')
      ''default'' =
     ''"x"a"."b"'' @ ''my-proj'' @ ''.'' @ ''ds'' @ ''.'' @ ''tbl'' @ ''" x''\<close>
    by simp
  from 1 2 show ?thesis by blast
qed

text \<open>
  C1 as stated, for every backtick-quoted reference, fails after \<^verbatim>\<open>`x`a.b\<close>: the backtick that
  closes \<^verbatim>\<open>`x`\<close> opens a match of \<^verbatim>\<open>`a.b`\<close>, which takes the opening backtick of the reference, and
  the segments of the reference stay as they are.
\<close>

theorem translate_reference_counterexample:
  \<open>translate_bigquery_sql ''`x`a.b`p.d.t`'' ''default'' = ''"x"a"."b"p.d.t"'' \<and>
   translate_bigquery_sql ''`x`a.b`d.t`'' ''default'' = ''"x"a"."b"d.t"'' \<and>
   \<not> arrives ''`x`a.b''\<close>
  by code_simp

text \<open>
  C10. Let the first segment be of \<^verbatim>\<open>[A-Za-z0-9_-]\<close> and hold a hyphen, and the second be of
  \<^verbatim>\<open>[A-Za-z0-9_]\<close> and not empty. At the opening backtick of such a backtick-quoted reference
  neither pattern matches, whatever follows the reference. In every text the two segments and
  the dot are copied as they are, between the translation of the text up to the opening
  backtick, which ends with a double quote, and the translation of the text from the closing
  backtick on, which starts with one. When the scan arrives at the opening backtick, that
  backtick alone becomes the double quote; when the table pattern does not match at the closing
  backtick, that backtick alone becomes the double quote. Between texts without backticks the
  result is the text with the two backticks turned into double quotes, as for
  \<^verbatim>\<open>`my-proj.ds`\<close>.
\<close>

theorem translate_hyphen_reference:
  assumes "\<forall>c \<in> set a. in_class project_class c" "CHR ''-'' \<in> set a"
    and "b \<noteq> []" "\<forall>c \<in> set b. in_class word_class c"
  shows \<open>re_match BIGQUERY_TABLE_PATTERN ([bt] @ a @ ''.'' @ b @ [bt] @ post) = None \<and>
         re_match BIGQUERY_TWO_PART_PATTERN ([bt] @ a @ ''.'' @ b @ [bt] @ post) = None \<and>
         translate_bigquery_sql (pre @ [bt] @ a @ ''.'' @ b @ [bt] @ post) dd =
           translate_bigquery_sql (pre @ [bt]) dd @ a @ ''.'' @ b
             @ translate_bigquery_sql ([bt] @ post) dd \<and>
         (\<exists>u. translate_bigquery_sql (pre @ [bt]) dd = u @ [dq]) \<and>
         (\<exists>v. translate_bigquery_sql ([bt] @ post) dd = [dq] @ v) \<and>
         (arrives pre \<longrightarrow> translate_bigquery_sql (pre @ [bt]) dd = translate_bigquery_sql pre dd @ [dq]) \<and>
         (re_match BIGQUERY_TABLE_PATTERN ([bt] @ post) = None \<longrightarrow>
            translate_bigquery_sql ([bt] @ post) dd = [dq] @ translate_bigquery_sql post dd) \<and>
         (bt \<notin> set pre \<and> bt \<notin> set post \<longrightarrow>
            translate_bigquery_sql (pre @ [bt] @ a @ ''.'' @ b @ [bt] @ post) dd =
              pre @ [dq] @ a @ ''.'' @ b @ [dq] @ post) \<and>
         translate_bigquery_sql ''`my-proj.ds`'' ''default'' = ''"my-proj.ds"''\<close>
proof -
  let ?s = "a @ CHR ''.'' # b @ bt # post"
  have ane: "a \<noteq> []" using assms(2) by auto
  have two: "two_part ?s = None"
    using hyphen_segment_no_two_part [OF assms(1,2)] by simp
  have three: "three_part ?s = None"
    using three_part_two_segments [OF ane assms(1) assms(3,4)] by simp
  have ref: "table_ref ?s = None"
    by (simp add: table_ref_def two three)
  have m3: "re_match BIGQUERY_TABLE_PATTERN (bt # ?s) = None"
    by (rule re_match_table_None) (simp add: ref)
  have m2: "re_match BIGQUERY_TWO_PART_PATTERN (bt # ?s) = None"
    by (simp add: re_match_two_part_pattern two)
  have inner: "bt \<notin> set (a @ CHR ''.'' # b)"
    using project_run_no_bt [OF assms(1)] word_run_no_bt [OF assms(4)] by (simp add: bt_not_dq)
  have copy: "translate_bigquery_sql ?s dd = (a @ CHR ''.'' # b) @ translate_bigquery_sql (bt # post) dd"
    using translate_copy [OF inner, of "bt # post" dd] by simp
  have main: "translate_bigquery_sql (pre @ [bt] @ a @ ''.'' @ b @ [bt] @ post) dd =
           translate_bigquery_sql (pre @ [bt]) dd @ a @ ''.'' @ b
             @ translate_bigquery_sql ([bt] @ post) dd"
    using translate_no_ref [OF ref, of pre dd] copy by simp
  from translate_closing [of pre dd] have ends: "\<exists>u. translate_bigquery_sql (pre @ [bt]) dd = u @ [dq]" .
  from translate_opening [of post dd] have starts: "\<exists>v. translate_bigquery_sql ([bt] @ post) dd = [dq] @ v"
    by simp
  have one: "translate_bigquery_sql [bt] dd = [dq]"
    by (simp add: translate_first_pass three_part_pass_no_ref table_ref_no_bt three_part_pass_Nil
        replace_def)
  have left: "translate_bigquery_sql (pre @ [bt]) dd = translate_bigquery_sql pre dd @ [dq]"
    if "arrives pre"
    using translate_arrives [OF that, of "[]" dd] one by simp
  have right: "translate_bigquery_sql ([bt] @ post) dd = [dq] @ translate_bigquery_sql post dd"
    if "re_match BIGQUERY_TABLE_PATTERN ([bt] @ post) = None"
  proof -
    from that have "table_ref post = None"
      by (simp add: re_match_table_ref)
    then show ?thesis
      by (simp add: translate_first_pass three_part_pass_no_ref replace_Cons)
  qed
  have plain: "translate_bigquery_sql (pre @ [bt] @ a @ ''.'' @ b @ [bt] @ post) dd =
              pre @ [dq] @ a @ ''.'' @ b @ [dq] @ post"
    if "bt \<notin> set pre \<and> bt \<notin> set post"
  proof -
    from that have "arrives pre" "translate_bigquery_sql pre dd = pre"
      "translate_bigquery_sql post dd = post" "table_ref post = None"
      by (simp_all add: arrives_no_bt translate_no_bt table_ref_no_bt)
    with main left right show ?thesis
      by (simp add: re_match_table_ref)
  qed
  have example: \<open>translate_bigquery_sql ''`my-proj.ds`'' ''default'' = ''"my-proj.ds"''\<close>
    by code_simp
  from m3 m2 main ends starts left right plain example show ?thesis
    by (simp del: append_assoc)
qed

theorem translate_hyphen_reference_witness:
  \<open>translate_bigquery_sql (''SELECT `c` FROM '' @ [bt] @ ''my-proj'' @ ''.'' @ ''ds'' @ [bt] @ ''c.d`'') ''default'' =
     ''SELECT "c" FROM "'' @ ''my-proj'' @ ''.'' @ ''ds'' @ ''"c"."d"'' \<and>
   translate_bigquery_sql (''FROM '' @ [bt] @ ''my-proj'' @ ''.'' @ ''ds'' @ [bt] @ '' x'') ''default'' =
     ''FROM '' @ [dq] @ ''my-proj'' @ ''.'' @ ''ds'' @ [dq] @ '' x''\<close>
proof -
  have a: "\<forall>c \<in> set ''my-proj''. in_class project_class c" "CHR ''-'' \<in> set ''my-proj''"
    by (simp_all add: in_class_def project_class_def)
  have b: "''ds'' \<noteq> []" "\<forall>c \<in> set ''ds''. in_class word_class c"
    by (simp_all add: in_class_def word_class_def)
  have c: "bt \<notin> set ''FROM '' \<and> bt \<notin> set '' x''"
    by (simp add: bt_def)
  have l: \<open>translate_bigquery_sql (''SELECT `c` FROM '' @ [bt]) ''default'' = ''SELECT "c" FROM "''\<close>
    by code_simp
  have r: \<open>translate_bigquery_sql ([bt] @ ''c.d`'') ''default'' = ''"c"."d"''\<close>
    by code_simp
  note T1 = translate_hyphen_reference [OF a b, of \<open>''c.d`''\<close> \<open>''SELECT `c` FROM ''\<close> "''default''"]
  note T2 = translate_hyphen_reference [OF a b, of "'' x''" "''FROM ''" "''default''"]
  from T1 [THEN conjunct2, THEN conjunct2, THEN conjunct1] l r
  have 1: \<open>translate_bigquery_sql (''SELECT `c` FROM '' @ [bt] @ ''my-proj'' @ ''.'' @ ''ds'' @ [bt] @ ''c.d`'') ''default'' =
     ''SELECT "c" FROM "'' @ ''my-proj'' @ ''.'' @ ''ds'' @ ''"c"."d"''\<close>
    by simp
  from T2 c
  have 2: \<open>translate_bigquery_sql (''FROM '' @ [bt] @ ''my-proj'' @ ''.'' @ ''ds'' @ [bt] @ '' x'') ''default'' =
     ''FROM '' @ [dq] @ ''my-proj'' @ ''.'' @ ''ds'' @ [dq] @ '' x''\<close>
    by blast
  from 1 2 show ?thesis by blast
qed

section \<open>Properties of the registrar\<close>

lemma free_table_name_spec:
  "free_table_name base loaded k nm \<notin> keys loaded \<and>
   ((nm \<notin> keys loaded \<and> free_table_name base loaded k nm = nm) \<or>
    (nm \<in> keys loaded \<and>
      (\<exists>k'>k. free_table_name base loaded k nm = numbered base k' \<and>
         (\<forall>j. k < j \<and> j < k' \<longrightarrow> numbered base j \<in> keys loaded))))"
proof (induction base loaded k nm rule: free_table_name.induct)
  case (1 base loaded k nm)
  show ?case
  proof (cases "nm \<in> keys loaded")
    case False
    then show ?thesis by (simp add: free_table_name.simps)
  next
    case True
    let ?next = "base @ ''_'' @ str_nat (k + 1)"
    let ?r = "free_table_name base loaded (k + 1) ?next"
    have step: "free_table_name base loaded k nm = ?r"
      using True by (subst free_table_name.simps) simp
    from 1 [OF True] have fresh: "?r \<notin> keys loaded"
      and alt: "(?next \<notin> keys loaded \<and> ?r = ?next) \<or>
        (?next \<in> keys loaded \<and>
          (\<exists>k'>k + 1. ?r = numbered base k' \<and>
             (\<forall>j. k + 1 < j \<and> j < k' \<longrightarrow> numbered base j \<in> keys loaded)))"
      by simp_all
    from alt have "\<exists>k'>k. ?r = numbered base k' \<and>
         (\<forall>j. k < j \<and> j < k' \<longrightarrow> numbered base j \<in> keys loaded)"
    proof
      assume a: "?next \<notin> keys loaded \<and> ?r = ?next"
      have "\<forall>j. k < j \<and> j < k + 1 \<longrightarrow> numbered base j \<in> keys loaded" by auto
      with a show ?thesis
        by (intro exI [of _ "k + 1"]) (auto simp: numbered_def)
    next
      assume b: "?next \<in> keys loaded \<and>
          (\<exists>k'>k + 1. ?r = numbered base k' \<and>
             (\<forall>j. k + 1 < j \<and> j < k' \<longrightarrow> numbered base j \<in> keys loaded))"
      then obtain k' where k': "k + 1 < k'" "?r = numbered base k'"
        and mid: "\<forall>j. k + 1 < j \<and> j < k' \<longrightarrow> numbered base j \<in> keys loaded"
        by blast
      have "numbered base j \<in> keys loaded" if "k < j" "j < k'" for j
      proof (cases "j = k + 1")
        case True
        with b show ?thesis by (simp add: numbered_def)
      next
        case False
        with that mid show ?thesis by simp
      qed
      with k' show ?thesis
        by (intro exI [of _ k']) simp
    qed
    with True fresh step show ?thesis by simp
  qed
qed

lemma free_table_name_chosen:
  "chosen_name base (keys loaded) (free_table_name base loaded 1 base)"
  using free_table_name_spec [of base loaded 1 base]
  unfolding chosen_name_def
  by (metis Suc_1 Suc_leI Suc_le_lessD)

lemma free_table_name_fresh: "free_table_name base loaded k nm \<notin> keys loaded"
  using free_table_name_spec by blast

lemma dict_set_fresh: "k \<notin> keys d \<Longrightarrow> dict_set d k v = d @ [(k, v)]"
  by (induction d) (auto simp: keys_def)

lemma register_files_spec:
  assumes "\<forall>f \<in> set files. stem w f \<noteq> []" "distinct (map fst loaded)"
  shows "\<exists>new connection'.
           register_files w ds files connection loaded = (Inr (loaded @ new), connection') \<and>
           map snd new = files \<and> distinct (map fst (loaded @ new)) \<and>
           (\<forall>i < length new. \<exists>base.
              sanitize_table_name (stem w (files ! i)) = Inr base \<and>
              chosen_name base (keys (loaded @ take i new)) (fst (new ! i)))"
  using assms
proof (induction files arbitrary: connection loaded)
  case Nil
  then show ?case by simp
next
  case (Cons f files)
  from Cons.prems(1) have "stem w f \<noteq> []" by simp
  from sanitize_nonempty [OF this] obtain base where base: "sanitize_table_name (stem w f) = Inr base"
    by blast
  define table_name where "table_name = free_table_name base loaded 1 base"
  define connection2 where "connection2 =
    execute (execute connection (create_view_sql ds table_name
        (replace CHR 0x27 [CHR 0x27, CHR 0x27] (resolve_posix w f))))
      (mirror_view_sql ds table_name)"
  have fresh: "table_name \<notin> keys loaded"
    unfolding table_name_def by (rule free_table_name_fresh)
  have chosen: "chosen_name base (keys loaded) table_name"
    unfolding table_name_def by (rule free_table_name_chosen)
  have set: "dict_set loaded table_name f = loaded @ [(table_name, f)]"
    using fresh by (rule dict_set_fresh)
  have step: "register_files w ds (f # files) connection loaded =
      register_files w ds files connection2 (loaded @ [(table_name, f)])"
    using set by (simp add: base Let_def connection2_def table_name_def)
  have d': "distinct (map fst (loaded @ [(table_name, f)]))"
    using Cons.prems(2) fresh by (auto simp: keys_def)
  from Cons.prems(1) have "\<forall>f \<in> set files. stem w f \<noteq> []" by simp
  from Cons.IH [OF this d', of connection2] obtain new connection'
    where run: "register_files w ds files connection2 (loaded @ [(table_name, f)]) =
        (Inr ((loaded @ [(table_name, f)]) @ new), connection')"
      and snd: "map snd new = files"
      and dist: "distinct (map fst ((loaded @ [(table_name, f)]) @ new))"
      and names: "\<forall>i < length new. \<exists>base.
              sanitize_table_name (stem w (files ! i)) = Inr base \<and>
              chosen_name base (keys ((loaded @ [(table_name, f)]) @ take i new)) (fst (new ! i))"
    by blast
  let ?new = "(table_name, f) # new"
  have "\<exists>base. sanitize_table_name (stem w ((f # files) ! i)) = Inr base \<and>
          chosen_name base (keys (loaded @ take i ?new)) (fst (?new ! i))"
    if "i < length ?new" for i
  proof (cases i)
    case 0
    with base chosen show ?thesis by simp
  next
    case (Suc i')
    with that have "i' < length new" by simp
    with names Suc show ?thesis by simp
  qed
  with step run snd dist show ?case
    by (intro exI [of _ ?new] exI [of _ connection']) simp
qed

text \<open>
  C3. When the directory holds at least one parquet file (and every stem is non-empty, as
  the stem of a file name is), registration returns a mapping whose table names are pairwise
  distinct and whose files, in insertion order, are the discovered files sorted by path. The
  name of each file is the one chosen for its sanitized stem against the names bound before
  it: the sanitized stem itself, or, when that is bound, the stem with the first free suffix
  \<^verbatim>\<open>_2\<close>, \<^verbatim>\<open>_3\<close>, ... A directory with \<^verbatim>\<open>a.parquet\<close> and \<^verbatim>\<open>A.parquet\<close> gives the names \<^verbatim>\<open>a\<close> and \<^verbatim>\<open>a_2\<close>.
\<close>

theorem register_names:
  assumes "glob_parquet w dir \<noteq> []"
    and "\<forall>f \<in> set (glob_parquet w dir). stem w f \<noteq> []"
  shows "(\<exists>tables connection'.
            register_parquet_tables w connection dir ds = (Inr tables, connection') \<and>
            distinct (map fst tables) \<and>
            map snd tables = sort (glob_parquet w dir) \<and>
            (\<forall>i < length tables. \<exists>base.
               sanitize_table_name (stem w (snd (tables ! i))) = Inr base \<and>
               chosen_name base (keys (take i tables)) (fst (tables ! i)))) \<and>
         fst (register_parquet_tables (example_world [''a.parquet'', ''A.parquet'']) [] ''data'' ''taxi'') =
           Inr [(''a'', ''A.parquet''), (''a_2'', ''a.parquet'')]"
proof -
  let ?files = "sort (glob_parquet w dir)"
  have ne: "?files \<noteq> []"
    using assms(1) by (metis length_0_conv length_sort)
  have stems: "\<forall>f \<in> set ?files. stem w f \<noteq> []"
    using assms(2) by simp
  from register_files_spec [OF stems, of "[]" ds "execute connection (create_schema_sql ds)"]
  obtain new connection'
    where run: "register_files w ds ?files (execute connection (create_schema_sql ds)) [] =
        (Inr new, connection')"
      and snd: "map snd new = ?files" and dist: "distinct (map fst new)"
      and names: "\<forall>i < length new. \<exists>base.
              sanitize_table_name (stem w (?files ! i)) = Inr base \<and>
              chosen_name base (keys (take i new)) (fst (new ! i))"
    by auto
  have reg: "register_parquet_tables w connection dir ds = (Inr new, connection')"
    using ne run by (simp add: register_parquet_tables_def Let_def)
  have "\<exists>base. sanitize_table_name (stem w (snd (new ! i))) = Inr base \<and>
          chosen_name base (keys (take i new)) (fst (new ! i))"
    if "i < length new" for i
  proof -
    from snd that have "snd (new ! i) = ?files ! i"
      by (metis nth_map)
    with names that show ?thesis by simp
  qed
  with reg snd dist have general: "\<exists>tables connection'.
            register_parquet_tables w connection dir ds = (Inr tables, connection') \<and>
            distinct (map fst tables) \<and>
            map snd tables = sort (glob_parquet w dir) \<and>
            (\<forall>i < length tables. \<exists>base.
               sanitize_table_name (stem w (snd (tables ! i))) = Inr base \<and>
               chosen_name base (keys (take i tables)) (fst (tables ! i)))"
    by blast
  have example: "fst (register_parquet_tables (example_world [''a.parquet'', ''A.parquet'']) [] ''data'' ''taxi'') =
           Inr [(''a'', ''A.parquet''), (''a_2'', ''a.parquet'')]"
    by code_simp
  from general example show ?thesis by blast
qed

theorem register_names_witness:
  "fst (register_parquet_tables (example_world [''b.parquet'', ''B.parquet'', ''b_2.parquet''])
      [] ''data'' ''taxi'') =
     Inr [(''b'', ''B.parquet''), (''b_2'', ''b.parquet''), (''b_2_2'', ''b_2.parquet'')]"
proof -
  let ?w = "example_world [''b.parquet'', ''B.parquet'', ''b_2.parquet'']"
  have 1: "glob_parquet ?w ''data'' \<noteq> []"
    by (simp add: example_world_def)
  have 2: "\<forall>f \<in> set (glob_parquet ?w ''data''). stem ?w f \<noteq> []"
    by (simp add: example_world_def)
  have "fst (register_parquet_tables ?w [] ''data'' ''taxi'') =
     Inr [(''b'', ''B.parquet''), (''b_2'', ''b.parquet''), (''b_2_2'', ''b_2.parquet'')]"
    by code_simp
  with register_names [OF 1 2, of "[]" "''taxi''"] show ?thesis by simp
qed

text \<open>
  C5. When no parquet file is discovered, registration fails with \<^verbatim>\<open>FileNotFoundError\<close> and
  the connection is as before: no schema was created and no view registered.
\<close>

theorem register_no_data:
  assumes "glob_parquet w dir = []"
  shows "register_parquet_tables w connection dir ds =
           (Inl (FileNotFoundError (''No parquet files found in '' @ path_str w dir)), connection)"
  using assms by (simp add: register_parquet_tables_def)

theorem register_no_data_witness:
  "register_parquet_tables (example_world []) [''SELECT 1''] ''data'' ''taxi'' =
     (Inl (FileNotFoundError ''No parquet files found in data''), [''SELECT 1''])"
proof -
  have "glob_parquet (example_world []) ''data'' = []"
    by (simp add: example_world_def)
  from register_no_data [OF this, of "[''SELECT 1'']" "''taxi''"] show ?thesis
    by (simp add: example_world_def)
qed

section \<open>Properties of the renderer\<close>

lemma widen_row_ok:
  "i + length vs \<le> length widths \<Longrightarrow>
   \<exists>widths'. widen_row widths i vs = Inr widths' \<and> length widths' = length widths"
proof (induction vs arbitrary: widths i)
  case Nil
  show ?case by simp
next
  case (Cons v vs)
  let ?w = "widths[i := max (widths ! i) (length v)]"
  from Cons.prems have "Suc i + length vs \<le> length ?w" and i: "i < length widths"
    by simp_all
  from Cons.IH [OF this(1)] i show ?case by simp
qed

lemma widen_ok:
  "\<forall>r \<in> set rs. length r \<le> length widths \<Longrightarrow>
   \<exists>widths'. widen widths rs = Inr widths' \<and> length widths' = length widths"
proof (induction rs arbitrary: widths)
  case Nil
  show ?case by simp
next
  case (Cons r rs)
  then have "0 + length r \<le> length widths" by simp
  from widen_row_ok [OF this] obtain w1 where w1: "widen_row widths 0 r = Inr w1"
    and len: "length w1 = length widths"
    by blast
  with Cons.prems have "\<forall>r \<in> set rs. length r \<le> length w1" by simp
  from Cons.IH [OF this] len w1 show ?case by auto
qed

lemma print_results_shape:
  assumes "result_set cursor columns rows" "0 \<le> m"
  shows "\<exists>widths. print_results cursor m =
           Inr ([format_row widths columns,
                 join ''-+-'' (map (\<lambda>width. replicate width CHR ''-'') widths)]
                @ map (format_row widths) (map (map str_value) (take (nat m) rows))
                @ (if length rows > nat m then [truncation_notice m] else []))"
proof -
  from assms(1) have desc: "description cursor = Some columns"
    and fetch: "fetchmany cursor (m + 1) = take (nat (m + 1)) rows"
    and wf: "\<forall>r \<in> set rows. length r = length columns"
    using assms(2) by (simp_all add: result_set_def)
  have more: "(int (length (take (nat (m + 1)) rows)) > m) = (length rows > nat m)"
    using assms(2) by (simp add: min_def) arith
  have slice: "slice_to (take (nat (m + 1)) rows) m = take (nat m) rows"
    using assms(2) by (simp add: slice_to_def min_def nat_add_distrib)
  have "\<forall>r \<in> set (map (map str_value) (take (nat m) rows)). length r \<le> length (map length columns)"
    using wf by (auto dest: in_set_takeD)
  from widen_ok [OF this] obtain widths
    where w: "widen (map length columns) (map (map str_value) (take (nat m) rows)) = Inr widths"
    by blast
  have "print_results cursor m =
           Inr ([format_row widths columns,
                 join ''-+-'' (map (\<lambda>width. replicate width CHR ''-'') widths)]
                @ map (format_row widths) (map (map str_value) (take (nat m) rows))
                @ (if length rows > nat m then [truncation_notice m] else []))"
    unfolding print_results_def Let_def desc fetch slice more
    by (simp only: option.case w sum.case)
  then show ?thesis ..
qed

lemma print_results_fetch_once:
  assumes "description other = description cursor"
    and "fetchmany other (m + 1) = fetchmany cursor (m + 1)"
  shows "print_results other m = print_results cursor m"
  unfolding print_results_def assms ..

lemma notice_20: "truncation_notice 20 = ''... showing first 20 rows''"
  by code_simp

lemma print_results_examples:
  assumes "result_set cursor columns rows"
  shows "(length rows = 25 \<longrightarrow>
           (\<exists>header separator data.
              print_results cursor 20 =
                Inr (header # separator # data @ [''... showing first 20 rows'']) \<and>
              length data = 20)) \<and>
         (length rows = 5 \<longrightarrow>
           (\<exists>header separator data.
              print_results cursor 20 = Inr (header # separator # data) \<and> length data = 5))"
proof -
  from print_results_shape [OF assms, of 20] obtain widths where out: "print_results cursor 20 =
           Inr ([format_row widths columns,
                 join ''-+-'' (map (\<lambda>width. replicate width CHR ''-'') widths)]
                @ map (format_row widths) (map (map str_value) (take (nat 20) rows))
                @ (if length rows > nat 20 then [truncation_notice 20] else []))"
    by auto
  let ?data = "map (format_row widths) (map (map str_value) (take (nat 20) rows))"
  have a: "length rows = 25 \<Longrightarrow> length ?data = 20" by simp
  have b: "length rows = 5 \<Longrightarrow> length ?data = 5" by simp
  show ?thesis
  proof (intro conjI impI)
    assume n: "length rows = 25"
    with out have "print_results cursor 20 =
        Inr (format_row widths columns #
          join ''-+-'' (map (\<lambda>width. replicate width CHR ''-'') widths) #
          ?data @ [''... showing first 20 rows''])"
      by (simp add: notice_20)
    with a [OF n] show "\<exists>header separator data.
              print_results cursor 20 =
                Inr (header # separator # data @ [''... showing first 20 rows'']) \<and>
              length data = 20"
      by blast
  next
    assume n: "length rows = 5"
    with out have "print_results cursor 20 =
        Inr (format_row widths columns #
          join ''-+-'' (map (\<lambda>width. replicate width CHR ''-'') widths) # ?data)"
      by simp
    with b [OF n] show "\<exists>header separator data.
              print_results cursor 20 = Inr (header # separator # data) \<and> length data = 5"
      by blast
  qed
qed

text \<open>
  C6, for \<^verbatim>\<open>max_rows\<close> of at least 0. For a result set of \<open>N\<close> rows and \<open>m \<ge> 0\<close>, the renderer
  fetches at most \<open>m + 1\<close> rows: it reads the rows through the one call \<^verbatim>\<open>fetchmany(m + 1)\<close>, so
  that every cursor with the same description and the same answer to that call is rendered
  alike, and the call returns at most \<open>m + 1\<close> rows. It prints the header, the separator, one
  line for each of the first \<open>min N m\<close> rows, and the truncation notice, which states \<open>m\<close>,
  exactly when \<open>N > m\<close>.
  With \<open>m = 20\<close>, 25 rows give 20 data lines and a notice that mentions 20, and 5 rows give
  5 data lines and no notice.
\<close>

theorem print_results_rows:
  assumes "result_set cursor columns rows" "0 \<le> m"
  shows "render_claim cursor (length rows) m \<and>
         (\<exists>widths. print_results cursor m =
           Inr ([format_row widths columns,
                 join ''-+-'' (map (\<lambda>width. replicate width CHR ''-'') widths)]
                @ map (format_row widths) (map (map str_value) (take (nat m) rows))
                @ (if length rows > nat m then [truncation_notice m] else []))) \<and>
         (length rows = 25 \<longrightarrow>
           (\<exists>header separator data.
              print_results cursor 20 =
                Inr (header # separator # data @ [''... showing first 20 rows'']) \<and>
              length data = 20)) \<and>
         (length rows = 5 \<longrightarrow>
           (\<exists>header separator data.
              print_results cursor 20 = Inr (header # separator # data) \<and> length data = 5))"
proof -
  from print_results_shape [OF assms] obtain widths where out: "print_results cursor m =
           Inr ([format_row widths columns,
                 join ''-+-'' (map (\<lambda>width. replicate width CHR ''-'') widths)]
                @ map (format_row widths) (map (map str_value) (take (nat m) rows))
                @ (if length rows > nat m then [truncation_notice m] else []))"
    by blast
  let ?data = "map (format_row widths) (map (map str_value) (take (nat m) rows))"
  from assms have fetch: "fetchmany cursor (m + 1) = take (nat (m + 1)) rows"
    by (simp add: result_set_def)
  have 1: "int (length (fetchmany cursor (m + 1))) \<le> m + 1"
    using assms(2) by (simp add: fetch)
  have len: "int (length ?data) = min (int (length rows)) m"
    using assms(2) by (simp add: min_def) arith
  have notice: "length rows > nat m \<Longrightarrow>
      truncation_notice m = ''... showing first '' @ str_int (int (length ?data)) @ '' rows''"
    using assms(2) by (simp add: truncation_notice_def min_def)
  have cond: "(int (length rows) > m) = (length rows > nat m)"
    using assms(2) by arith
  have shown: "print_results cursor m =
      Inr (format_row widths columns #
           join ''-+-'' (map (\<lambda>width. replicate width CHR ''-'') widths) # ?data @
           (if int (length rows) > m
            then [''... showing first '' @ str_int (int (length ?data)) @ '' rows''] else []))"
    using out notice cond by auto
  have once: "\<forall>other. description other = description cursor \<and>
        fetchmany other (m + 1) = fetchmany cursor (m + 1) \<longrightarrow>
        print_results other m = print_results cursor m"
    using print_results_fetch_once by blast
  from shown len have "\<exists>header separator data.
        print_results cursor m =
          Inr (header # separator # data @
            (if int (length rows) > m
             then [''... showing first '' @ str_int (int (length data)) @ '' rows''] else [])) \<and>
        int (length data) = min (int (length rows)) m"
    by blast
  with once 1 have "render_claim cursor (length rows) m"
    unfolding render_claim_def by (intro conjI)
  with out print_results_examples [OF assms(1)] show ?thesis by blast
qed

theorem print_results_rows_witness:
  "render_claim (cursor_of [''n''] (replicate 25 [Some ''7''])) 25 20 \<and>
   render_claim (cursor_of [''n''] (replicate 5 [None])) 5 20 \<and>
   print_results (cursor_of [''n'', ''text'']
       [[Some ''1'', None], [Some ''22'', Some ''abcdef''], [None, None]]) 2 =
     Inr [''n  | text  '', ''---+-------'', ''1  | NULL  '', ''22 | abcdef'',
          ''... showing first 2 rows'']"
proof -
  have a: "result_set (cursor_of [''n''] (replicate 25 [Some ''7''])) [''n''] (replicate 25 [Some ''7''])"
    by (simp add: result_set_def cursor_of_def)
  have b: "result_set (cursor_of [''n''] (replicate 5 [None])) [''n''] (replicate 5 [None])"
    by (simp add: result_set_def cursor_of_def)
  have c: "print_results (cursor_of [''n'', ''text'']
       [[Some ''1'', None], [Some ''22'', Some ''abcdef''], [None, None]]) 2 =
     Inr [''n  | text  '', ''---+-------'', ''1  | NULL  '', ''22 | abcdef'',
          ''... showing first 2 rows'']"
    by code_simp
  from print_results_rows [OF a, of 20] print_results_rows [OF b, of 20] c
  show ?thesis by simp
qed

text \<open>
  C6 as stated, for every \<^verbatim>\<open>max_rows\<close>, fails at \<^verbatim>\<open>max_rows = -1\<close>: of three rows none is
  fetched and none shown, and the notice speaks of the first -1 rows.
\<close>

theorem print_results_negative_counterexample:
  "print_results three_rows (- 1) = Inr [''n'', ''-'', ''... showing first -1 rows''] \<and>
   \<not> render_claim three_rows 3 (- 1)"
proof -
  have "print_results three_rows (- 1) = Inr [''n'', ''-'', ''... showing first -1 rows'']"
    by code_simp
  moreover have "\<not> render_claim three_rows 3 (- 1)"
  proof
    assume "render_claim three_rows 3 (- 1)"
    then obtain data :: "string list" where "int (length data) = min (int 3) (- 1)"
      unfolding render_claim_def by blast
    then show False by simp
  qed
  ultimately show ?thesis by simp
qed

section \<open>Properties of the orchestrator\<close>

text \<open>
  C8, for a \<^verbatim>\<open>--query\<close> value that is not empty. With such a value and a \<^verbatim>\<open>--query-file\<close> value,
  \<open>main\<close> raises \<^verbatim>\<open>SystemExit\<close> with a message of one line (exit status 1) before it connects
  to the engine, looks into the data directory or reads a file.
\<close>

theorem main_conflicting_arguments:
  assumes "query a = Some q" "q \<noteq> []" "query_file a = Some f"
  shows "main w a = ([], SystemExit ''Use either --query or --query-file, not both.'') \<and>
         exit_status (snd (main w a)) = 1 \<and> conflict_claim w a"
proof -
  have m: "main w a = ([], SystemExit ''Use either --query or --query-file, not both.'')"
    using assms by (simp add: main_def truthy_str_def truthy_path_def)
  then show ?thesis
    by (simp add: conflict_claim_def exit_status_def)
qed

theorem main_conflicting_arguments_witness:
  "main (example_world [''a.parquet'']) (example_args (Some ''SELECT 1'') (Some ''q.sql'')) =
     ([], SystemExit ''Use either --query or --query-file, not both.'')"
proof -
  have "query (example_args (Some ''SELECT 1'') (Some ''q.sql'')) = Some ''SELECT 1''"
    "''SELECT 1'' \<noteq> []"
    "query_file (example_args (Some ''SELECT 1'') (Some ''q.sql'')) = Some ''q.sql''"
    by (simp_all add: example_args_def)
  from main_conflicting_arguments [OF this, of "example_world [''a.parquet'']"]
  show ?thesis by simp
qed

text \<open>
  C8 as stated fails for an empty \<^verbatim>\<open>--query\<close> value given with a \<^verbatim>\<open>--query-file\<close> value: the test
  \<^verbatim>\<open>args.query and args.query_file\<close> is false for the empty string, so the run connects,
  registers the tables, reads the file, executes its text and returns with status 0.
\<close>

theorem main_empty_query_counterexample:
  "query (example_args (Some '''') (Some ''q.sql'')) = Some '''' \<and>
   query_file (example_args (Some '''') (Some ''q.sql'')) = Some ''q.sql'' \<and>
   take 2 (fst (main (example_world [''a.parquet'']) (example_args (Some '''') (Some ''q.sql'')))) =
     [Connect, Glob ''data''] \<and>
   drop 5 (fst (main (example_world [''a.parquet'']) (example_args (Some '''') (Some ''q.sql'')))) =
     [ReadText ''q.sql'', Execute ''SELECT 1'', Print ''n'', Print ''-'', Print ''1''] \<and>
   snd (main (example_world [''a.parquet'']) (example_args (Some '''') (Some ''q.sql''))) = Returned \<and>
   \<not> conflict_claim (example_world [''a.parquet'']) (example_args (Some '''') (Some ''q.sql''))"
proof -
  let ?w = "example_world [''a.parquet'']"
  let ?a = "example_args (Some '''') (Some ''q.sql'')"
  have q: "query ?a = Some ''''" "query_file ?a = Some ''q.sql''"
    by (simp_all add: example_args_def)
  have 1: "take 2 (fst (main ?w ?a)) = [Connect, Glob ''data'']"
    by code_simp
  have 2: "drop 5 (fst (main ?w ?a)) =
     [ReadText ''q.sql'', Execute ''SELECT 1'', Print ''n'', Print ''-'', Print ''1'']"
    by code_simp
  have 3: "snd (main ?w ?a) = Returned"
    by code_simp
  from 1 have "fst (main ?w ?a) \<noteq> []" by auto
  with q have "\<not> conflict_claim ?w ?a"
    by (simp add: conflict_claim_def)
  with q 1 2 3 show ?thesis by simp
qed

end
